theory Spec2Isabelle
  imports Complex_Main "HOL-Library.Word"
begin

section \<open>Synthesis cache key (client/src/lib/api.ts, tts)\<close>

text \<open>
  JavaScript strings are modelled as \<open>string\<close>. The template literal
  \<^verbatim>\<open>`${locale}:${voice}:${text}`\<close> is plain concatenation.
\<close>

definition cache_key :: "string \<Rightarrow> string \<Rightarrow> string \<Rightarrow> string" where
  "cache_key text voice locale = locale @ '':'' @ voice @ '':'' @ text"

section \<open>Concurrency limiter (client/src/lib/api.ts, createLimiter)\<close>

text \<open>
  The closure state of \<^verbatim>\<open>createLimiter\<close>: the counter \<open>active\<close> and the array
  \<open>queue\<close> of waiting \<^verbatim>\<open>exec\<close> closures. A closure is identified by the task it
  will run. Two trace fields record what the closures did: \<open>inflight\<close> holds the
  tasks whose \<^verbatim>\<open>fn()\<close> has been called and has not settled yet, \<open>started\<close> lists
  every task in the order in which its \<^verbatim>\<open>exec\<close> began.
\<close>

record 'a limiter =
  active :: int
  queue :: "'a list"
  inflight :: "'a list"
  started :: "'a list"

definition new_limiter :: "'a limiter" where
  "new_limiter = \<lparr>active = 0, queue = [], inflight = [], started = []\<rparr>"

text \<open>
  \<^verbatim>\<open>exec\<close> up to its first suspension point: \<^verbatim>\<open>active++\<close>, then \<^verbatim>\<open>fn()\<close>
  is called and awaited.
\<close>

definition exec :: "'a \<Rightarrow> 'a limiter \<Rightarrow> 'a limiter" where
  "exec t s = s\<lparr>active := active s + 1, inflight := inflight s @ [t], started := started s @ [t]\<rparr>"

text \<open>\<^verbatim>\<open>active < limit ? exec() : queue.push(exec)\<close>\<close>

definition run :: "int \<Rightarrow> 'a \<Rightarrow> 'a limiter \<Rightarrow> 'a limiter" where
  "run limit t s = (if active s < limit then exec t s else s\<lparr>queue := queue s @ [t]\<rparr>)"

text \<open>
  The rest of \<^verbatim>\<open>exec\<close>, run when the promise of \<^verbatim>\<open>fn()\<close> settles. Fulfilled or
  rejected, the \<^verbatim>\<open>finally\<close> block is the same: \<^verbatim>\<open>active--\<close>, then
  \<^verbatim>\<open>if (queue.length) queue.shift()!()\<close>, which runs the next \<^verbatim>\<open>exec\<close> up to its
  own suspension point within the same turn of the event loop.
\<close>

definition settle :: "'a \<Rightarrow> 'a limiter \<Rightarrow> 'a limiter" where
  "settle t s =
     (let s1 = s\<lparr>active := active s - 1, inflight := remove1 t (inflight s)\<rparr>
      in case queue s1 of
           [] \<Rightarrow> s1
         | e # q \<Rightarrow> exec e (s1\<lparr>queue := q\<rparr>))"

datatype 'a lim_event = Submit 'a | Settle 'a

text \<open>
  One turn of the event loop at the limiter. A promise settles only if its call was
  made and has not settled before, so \<open>Settle t\<close> for a task that is not in flight
  is no event of the program and leaves the state as it is.
\<close>

fun lim_step :: "int \<Rightarrow> 'a limiter \<Rightarrow> 'a lim_event \<Rightarrow> 'a limiter" where
  "lim_step limit s (Submit t) = run limit t s"
| "lim_step limit s (Settle t) = (if t \<in> set (inflight s) then settle t s else s)"

definition lim_run :: "int \<Rightarrow> 'a lim_event list \<Rightarrow> 'a limiter" where
  "lim_run limit evs = foldl (lim_step limit) new_limiter evs"

fun submitted :: "'a lim_event list \<Rightarrow> 'a list" where
  "submitted [] = []"
| "submitted (Submit t # evs) = t # submitted evs"
| "submitted (Settle t # evs) = submitted evs"

text \<open>
  The provider answers every call that is in flight, oldest first, until none is left.
\<close>

function drain :: "'a limiter \<Rightarrow> 'a limiter" where
  "drain s = (case inflight s of [] \<Rightarrow> s | t # _ \<Rightarrow> drain (settle t s))"
  by pat_completeness auto
termination
proof (relation "measure (\<lambda>s. 2 * length (queue s) + length (inflight s))")
  show "wf (measure (\<lambda>s::'a limiter. 2 * length (queue s) + length (inflight s)))"
    by simp
next
  fix s :: "'a limiter" and t ts
  assume "inflight s = t # ts"
  then show "(settle t s, s) \<in> measure (\<lambda>s. 2 * length (queue s) + length (inflight s))"
    by (cases "queue s") (simp_all add: settle_def exec_def Let_def)
qed

declare drain.simps [simp del]

section \<open>Synthesis with cache and limiter (client/src/lib/api.ts, tts)\<close>

record tts_request =
  req_text :: string
  req_voice :: string
  req_locale :: string

text \<open>
  What \<^verbatim>\<open>fetch('/api/tts-single', ...)\<close> settles with: a rejection, or a response
  with its \<^verbatim>\<open>ok\<close> flag and its body (the audio bytes, or the error text).
\<close>

datatype fetch_result = NetworkError string | Response bool string

text \<open>
  The module state is \<open>audioCache\<close> (a \<^verbatim>\<open>Map<string, Blob>\<close>, a blob being its
  bytes) and the limiter \<open>runLimited\<close>. Every invocation of \<^verbatim>\<open>tts\<close> has an
  identifier; \<open>args\<close> holds the arguments of the invocations that are suspended,
  \<open>reading\<close> the responses whose body is being read (\<^verbatim>\<open>await response.text()\<close>,
  \<^verbatim>\<open>await response.blob()\<close>), and \<open>results\<close> what each returned promise settled
  with: \<open>Inl\<close> the message of the error thrown, \<open>Inr\<close> the blob returned.
\<close>

record tts_state =
  audioCache :: "string \<rightharpoonup> string"
  runLimited :: "nat limiter"
  args :: "nat \<rightharpoonup> tts_request"
  reading :: "nat \<rightharpoonup> bool \<times> string"
  results :: "nat \<rightharpoonup> string + string"

definition tts_init :: tts_state where
  "tts_init = \<lparr>audioCache = Map.empty, runLimited = new_limiter, args = Map.empty,
                reading = Map.empty, results = Map.empty\<rparr>"

datatype tts_event =
    Call nat tts_request
  | FetchSettled nat fetch_result
  | BodyRead nat
  | BodyFailed nat string

text \<open>
  One turn of the event loop.
  \<^item> \<open>Call i r\<close>: \<^verbatim>\<open>tts\<close> is invoked; a cache hit returns the cached blob, a miss
    hands the fetch to the limiter with limit 3.
  \<^item> \<open>FetchSettled i fr\<close>: the fetch of invocation \<open>i\<close> settles; the limiter releases
    the slot; a rejection propagates out of \<^verbatim>\<open>tts\<close>, a response has its body read.
  \<^item> \<open>BodyRead i\<close>: the body has arrived; \<^verbatim>\<open>!response.ok\<close> throws the text, else
    the blob is stored under the key and returned.
  \<^item> \<open>BodyFailed i e\<close>: reading the body rejected; the error propagates.
  An event for an invocation that is not at that point is no event of the program.
\<close>

fun tts_step :: "tts_state \<Rightarrow> tts_event \<Rightarrow> tts_state" where
  "tts_step s (Call i r) =
     (let key = cache_key (req_text r) (req_voice r) (req_locale r) in
      case audioCache s key of
        Some blob \<Rightarrow> s\<lparr>results := (results s)(i \<mapsto> Inr blob)\<rparr>
      | None \<Rightarrow> s\<lparr>runLimited := run 3 i (runLimited s), args := (args s)(i \<mapsto> r)\<rparr>)"
| "tts_step s (FetchSettled i fr) =
     (if i \<in> set (inflight (runLimited s)) then
        (case fr of
           NetworkError e \<Rightarrow>
             s\<lparr>runLimited := settle i (runLimited s), results := (results s)(i \<mapsto> Inl e)\<rparr>
         | Response ok body \<Rightarrow>
             s\<lparr>runLimited := settle i (runLimited s), reading := (reading s)(i \<mapsto> (ok, body))\<rparr>)
      else s)"
| "tts_step s (BodyRead i) =
     (case reading s i of
        None \<Rightarrow> s
      | Some (ok, body) \<Rightarrow>
          (case args s i of
             None \<Rightarrow> s
           | Some r \<Rightarrow>
               if \<not> ok then
                 s\<lparr>reading := (reading s)(i := None), results := (results s)(i \<mapsto> Inl body)\<rparr>
               else
                 s\<lparr>audioCache :=
                     (audioCache s)(cache_key (req_text r) (req_voice r) (req_locale r) \<mapsto> body),
                   reading := (reading s)(i := None),
                   results := (results s)(i \<mapsto> Inr body)\<rparr>))"
| "tts_step s (BodyFailed i e) =
     (case reading s i of
        None \<Rightarrow> s
      | Some _ \<Rightarrow> s\<lparr>reading := (reading s)(i := None), results := (results s)(i \<mapsto> Inl e)\<rparr>)"

definition tts_run :: "tts_event list \<Rightarrow> tts_state" where
  "tts_run evs = foldl tts_step tts_init evs"

text \<open>
  The provider calls made so far are the fetches the limiter has started.
\<close>

definition provider_calls :: "tts_state \<Rightarrow> nat list" where
  "provider_calls s = started (runLimited s)"

section \<open>Signal encoder (client/src/components/enhanced-speech-interface.tsx, audioBufferToWav)\<close>

text \<open>
  An \<^verbatim>\<open>AudioBuffer\<close> is its sample rate in Hz and the samples of channel 0;
  \<^verbatim>\<open>buffer.length\<close> is the length of that list. A JavaScript number is the
  rational it denotes, and every division and multiplication of the source rounds its
  exact result to the nearest double, as IEEE 754 does. A sample that is \<^verbatim>\<open>NaN\<close>
  reads as 0 in the code (\<^verbatim>\<open>channelData[sourceIndex] || 0\<close>) and is 0 here.
\<close>

record AudioBuffer =
  sampleRate :: nat
  channelData :: "rat list"

type_synonym byte = "8 word"

datatype error = RangeError

text \<open>
  Rounding to the nearest integer with ties to the even one, the rule of the double
  significand.
\<close>

definition round_even :: "rat \<Rightarrow> int" where
  "round_even y =
     (let f = \<lfloor>y\<rfloor>; d = y - of_int f
      in if d < 1 / 2 then f else if 1 / 2 < d then f + 1 else if even f then f else f + 1)"

text \<open>
  The binary exponents of doubles, from the subnormal range (spacing \<open>2 powi - 1074\<close>,
  shared with exponent \<open>- 1022\<close>) to the largest, 1023.
\<close>

definition exponents :: "int list" where
  "exponents = map (\<lambda>k. int k - 1022) [0..<2046]"

text \<open>
  The double nearest to a rational that is not negative: with \<open>e\<close> the first exponent
  such that \<open>x < 2 powi (e + 1)\<close>, the nearest multiple of \<open>2 powi (e - 52)\<close>, which
  leaves 53 significant bits. A result of \<open>2 powi 1024\<close> or more is no double
  (\<^verbatim>\<open>Infinity\<close> in JavaScript) and is left as it is: no quotient or product of
  the encoder reaches it while the sample rate and the length are JavaScript numbers.
\<close>

definition fl_pos :: "rat \<Rightarrow> rat" where
  "fl_pos x =
     (case find (\<lambda>e. x < 2 powi (e + 1)) exponents of
        None \<Rightarrow> x
      | Some e \<Rightarrow> of_int (round_even (x / 2 powi (e - 52))) * 2 powi (e - 52))"

definition fl :: "rat \<Rightarrow> rat" where
  "fl x = (if x < 0 then - fl_pos (- x) else fl_pos x)"

text \<open>
  \<^verbatim>\<open>Math.round\<close> rounds a double to the nearest integer, halves upwards, without
  a rounding error of its own.
\<close>

definition js_round :: "rat \<Rightarrow> int" where
  "js_round x = \<lfloor>x + 1 / 2\<rfloor>"

text \<open>The integer conversion of \<^verbatim>\<open>setInt16\<close> truncates towards zero.\<close>

definition js_trunc :: "rat \<Rightarrow> int" where
  "js_trunc x = (if x < 0 then - \<lfloor>- x\<rfloor> else \<lfloor>x\<rfloor>)"

definition targetSampleRate :: nat where
  "targetSampleRate = 16000"

text \<open>\<^verbatim>\<open>buffer.sampleRate / targetSampleRate\<close>\<close>

definition ratio :: "AudioBuffer \<Rightarrow> rat" where
  "ratio b = fl (of_nat (sampleRate b) / of_nat targetSampleRate)"

text \<open>
  \<^verbatim>\<open>Math.round(buffer.length / ratio)\<close>, a count: for a positive sample rate the
  rounded quotient is not negative.
\<close>

definition newLength :: "AudioBuffer \<Rightarrow> nat" where
  "newLength b = nat (js_round (fl (of_nat (length (channelData b)) / ratio b)))"

text \<open>The literal \<^verbatim>\<open>0.01\<close> is the double nearest to one hundredth.\<close>

definition threshold :: rat where
  "threshold = fl (1 / 100)"

text \<open>
  \<^verbatim>\<open>channelData[Math.round(i * ratio)] || 0\<close>: an index beyond the array reads
  \<^verbatim>\<open>undefined\<close>, which becomes 0.
\<close>

definition sample_at :: "AudioBuffer \<Rightarrow> nat \<Rightarrow> rat" where
  "sample_at b i =
     (let sourceIndex = js_round (fl (of_nat i * ratio b))
      in if 0 \<le> sourceIndex \<and> nat sourceIndex < length (channelData b)
         then channelData b ! nat sourceIndex else 0)"

definition loud :: "AudioBuffer \<Rightarrow> nat \<Rightarrow> bool" where
  "loud b i \<longleftrightarrow> \<bar>sample_at b i\<bar> > threshold"

text \<open>
  The two scans: \<^verbatim>\<open>start\<close> is the first loud output index, else 0;
  \<^verbatim>\<open>end\<close> is the last loud output index, else \<^verbatim>\<open>newLength - 1\<close>.
\<close>

definition trimStart :: "AudioBuffer \<Rightarrow> nat" where
  "trimStart b = (case find (loud b) [0..<newLength b] of Some i \<Rightarrow> i | None \<Rightarrow> 0)"

definition trimEnd :: "AudioBuffer \<Rightarrow> int" where
  "trimEnd b =
     (case find (loud b) (rev [0..<newLength b]) of
        Some i \<Rightarrow> int i
      | None \<Rightarrow> int (newLength b) - 1)"

text \<open>
  A \<^verbatim>\<open>DataView\<close> write of some bytes at an offset; outside the buffer it throws a
  RangeError.
\<close>

definition setBytes :: "nat \<Rightarrow> byte list \<Rightarrow> byte list \<Rightarrow> error + byte list" where
  "setBytes offset bs view =
     (if offset + length bs \<le> length view
      then Inr (take offset view @ bs @ drop (offset + length bs) view)
      else Inl RangeError)"

text \<open>Little-endian encodings; the conversion to a byte keeps the low eight bits.\<close>

definition u16 :: "nat \<Rightarrow> byte list" where
  "u16 v = [of_nat v, of_nat (v div 256)]"

definition u32 :: "nat \<Rightarrow> byte list" where
  "u32 v = [of_nat v, of_nat (v div 256), of_nat (v div 65536), of_nat (v div 16777216)]"

definition i16 :: "rat \<Rightarrow> byte list" where
  "i16 v = (let t = js_trunc v in [of_int t, of_int (t div 256)])"

text \<open>\<^verbatim>\<open>writeString\<close>: one \<^verbatim>\<open>setUint8\<close> for each character code.\<close>

definition str_bytes :: "string \<Rightarrow> byte list" where
  "str_bytes s = map (\<lambda>c. of_nat (of_char c)) s"

text \<open>The thirteen header writes, in the order of the source.\<close>

definition header_writes :: "nat \<Rightarrow> (nat \<times> byte list) list" where
  "header_writes n =
     [(0, str_bytes ''RIFF''),
      (4, u32 (36 + n * 2)),
      (8, str_bytes ''WAVE''),
      (12, str_bytes ''fmt ''),
      (16, u32 16),
      (20, u16 1),
      (22, u16 1),
      (24, u32 targetSampleRate),
      (28, u32 (targetSampleRate * 2)),
      (32, u16 2),
      (34, u16 16),
      (36, str_bytes ''data''),
      (40, u32 (n * 2))]"

fun write_all :: "(nat \<times> byte list) list \<Rightarrow> byte list \<Rightarrow> error + byte list" where
  "write_all [] view = Inr view"
| "write_all ((offset, bs) # ws) view =
     (case setBytes offset bs view of
        Inl e \<Rightarrow> Inl e
      | Inr view' \<Rightarrow> write_all ws view')"

text \<open>
  \<^verbatim>\<open>Math.max(-1, Math.min(1, x))\<close>, then
  \<^verbatim>\<open>sample < 0 ? sample * 0x8000 : sample * 0x7FFF\<close>.
\<close>

definition clip :: "rat \<Rightarrow> rat" where
  "clip x = max (- 1) (min 1 x)"

definition quantize :: "rat \<Rightarrow> rat" where
  "quantize sample = (if sample < 0 then fl (sample * 32768) else fl (sample * 32767))"

text \<open>
  The last loop, over the output indices from \<^verbatim>\<open>start\<close> to \<^verbatim>\<open>end\<close>; it returns
  the view and the final \<^verbatim>\<open>offset\<close>.
\<close>

fun write_samples :: "AudioBuffer \<Rightarrow> nat list \<Rightarrow> nat \<Rightarrow> byte list \<Rightarrow> error + byte list \<times> nat" where
  "write_samples b [] offset view = Inr (view, offset)"
| "write_samples b (i # is) offset view =
     (case setBytes offset (i16 (quantize (clip (sample_at b i)))) view of
        Inl e \<Rightarrow> Inl e
      | Inr view' \<Rightarrow> write_samples b is (offset + 2) view')"

text \<open>
  The whole function, with the final \<^verbatim>\<open>offset\<close> beside the buffer. A sample rate
  of 0, which no \<^verbatim>\<open>AudioBuffer\<close> has, makes the length infinite or \<^verbatim>\<open>NaN\<close> and
  the allocation or the first write throw a RangeError.
\<close>

definition encode :: "AudioBuffer \<Rightarrow> error + byte list \<times> nat" where
  "encode b =
     (if sampleRate b = 0 then Inl RangeError
      else
        let n = newLength b;
            arrayBuffer = replicate (44 + n * 2) 0
        in case write_all (header_writes n) arrayBuffer of
             Inl e \<Rightarrow> Inl e
           | Inr view \<Rightarrow> write_samples b [trimStart b..<nat (trimEnd b + 1)] 44 view)"

definition audioBufferToWav :: "AudioBuffer \<Rightarrow> error + byte list" where
  "audioBufferToWav b = (case encode b of Inl e \<Rightarrow> Inl e | Inr (view, offset) \<Rightarrow> Inr view)"

text \<open>Reading a little-endian unsigned 32-bit field of the output.\<close>

definition getUint32 :: "nat \<Rightarrow> byte list \<Rightarrow> nat" where
  "getUint32 offset view = foldr (\<lambda>x acc. unat x + 256 * acc) (take 4 (drop offset view)) 0"

text \<open>
  The header as the thirteen writes leave it, the two bytes that the last loop writes
  for an output index, and the number of output indices that it visits.
\<close>

definition wav_header :: "nat \<Rightarrow> byte list" where
  "wav_header n = concat (map snd (header_writes n))"

definition sample_bytes :: "AudioBuffer \<Rightarrow> nat \<Rightarrow> byte list" where
  "sample_bytes b i = i16 (quantize (clip (sample_at b i)))"

definition retained :: "AudioBuffer \<Rightarrow> nat" where
  "retained b = nat (trimEnd b + 1) - trimStart b"

section \<open>Session state machine (client/src/components/enhanced-speech-interface.tsx)\<close>

datatype RecordingState = Idle | Listening | Translating | Done | Error

datatype bubble_type = Student | English

record MessageBubble =
  bubble_type :: bubble_type
  bubble_text :: string
  bubble_language :: "string option"
  timestamp :: nat

text \<open>
  The React state of \<^verbatim>\<open>EnhancedSpeechInterface\<close> that the recording handlers read
  and write; \<open>retryPending\<close> says that the timer of \<^verbatim>\<open>scheduleRetry\<close> is armed.
\<close>

record session =
  recordingState :: RecordingState
  currentMessage :: "MessageBubble option"
  previousMessage :: "MessageBubble option"
  englishAudioBlob :: "string option"
  retryPending :: bool

text \<open>
  What the \<^verbatim>\<open>try\<close> block of \<^verbatim>\<open>startRecording\<close> meets: the microphone stream and
  the recorder are obtained, or \<^verbatim>\<open>getUserMedia\<close> (or the recorder) throws.
\<close>

datatype media_result = Granted | Denied

text \<open>
  \<^verbatim>\<open>if (recordingState !== 'idle') return;\<close> comes first; then the capture starts
  (\<^verbatim>\<open>setRecordingState('listening')\<close>) or the \<^verbatim>\<open>catch\<close> block sets the error state
  and schedules the retry.
\<close>

definition startRecording :: "session \<Rightarrow> media_result \<Rightarrow> session" where
  "startRecording s m =
     (if recordingState s \<noteq> Idle then s
      else case m of
             Granted \<Rightarrow> s\<lparr>recordingState := Listening\<rparr>
           | Denied \<Rightarrow> s\<lparr>recordingState := Error, retryPending := True\<rparr>)"

definition resetToIdle :: "session \<Rightarrow> session" where
  "resetToIdle s = s\<lparr>recordingState := Idle, currentMessage := None, previousMessage := None,
                      englishAudioBlob := None, retryPending := False\<rparr>"

text \<open>The timer of \<^verbatim>\<open>scheduleRetry\<close> fires after 2000 ms.\<close>

definition retryFires :: "session \<Rightarrow> session" where
  "retryFires s = (if retryPending s then s\<lparr>recordingState := Idle, retryPending := False\<rparr> else s)"

section \<open>Speech markup documents (server routes, /api/tts-single and /api/tts)\<close>

text \<open>
  \<^verbatim>\<open>s.replace(/&/g, "&amp;").replace(/</g, "&lt;").replace(/>/g, "&gt;")\<close>: three
  passes, each replacing every occurrence of one character.
\<close>

definition replace_char :: "char \<Rightarrow> string \<Rightarrow> string \<Rightarrow> string" where
  "replace_char c r s = concat (map (\<lambda>x. if x = c then r else [x]) s)"

definition escapeXml :: "string \<Rightarrow> string" where
  "escapeXml s =
     replace_char (CHR ''>'') ''&gt;''
       (replace_char (CHR ''<'') ''&lt;''
         (replace_char (CHR ''&'') ''&amp;'' s))"

text \<open>What the three passes of \<^verbatim>\<open>escapeXml\<close> do to one character.\<close>

definition escape_char :: "char \<Rightarrow> string" where
  "escape_char c =
     (if c = CHR ''&'' then ''&amp;'' else if c = CHR ''<'' then ''&lt;''
      else if c = CHR ''>'' then ''&gt;'' else [c])"

text \<open>
  The code units that \<^verbatim>\<open>String.prototype.trim\<close> removes, JavaScript's white space
  and line terminators: tab, line feed, vertical tab, form feed, carriage return,
  space, no-break space (U+00A0), U+1680, U+2000 to U+200A, the line and paragraph
  separators U+2028 and U+2029, U+202F, U+205F, U+3000 and the byte order mark U+FEFF.
\<close>

definition is_space :: "nat \<Rightarrow> bool" where
  "is_space c \<longleftrightarrow>
     c \<in> {9, 10, 11, 12, 13, 32, 160, 5760, 8232, 8233, 8239, 8287, 12288, 65279}
     \<or> (8192 \<le> c \<and> c \<le> 8202)"

text \<open>
  \<^verbatim>\<open>trim\<close> on a string whose elements have the code units given by \<open>unit\<close>. A
  \<open>string\<close> is a string of code units below 256.
\<close>

definition trim_units :: "('a \<Rightarrow> nat) \<Rightarrow> 'a list \<Rightarrow> 'a list" where
  "trim_units unit s =
     rev (dropWhile (\<lambda>c. is_space (unit c)) (rev (dropWhile (\<lambda>c. is_space (unit c)) s)))"

definition trim_chars :: "string \<Rightarrow> string" where
  "trim_chars s = trim_units of_char s"

definition newline :: string where
  "newline = [CHR 0x0A]"

text \<open>The template of \<^verbatim>\<open>/api/tts-single\<close>, which ends in \<^verbatim>\<open>.trim()\<close>.\<close>

definition tts_single_ssml :: "string \<Rightarrow> string \<Rightarrow> string \<Rightarrow> string" where
  "tts_single_ssml text voice locale =
     trim_chars (newline
       @ ''<speak version='' @ [CHR 0x27] @ ''1.0'' @ [CHR 0x27] @ '' xml:lang='' @ [CHR 0x27]
           @ locale @ [CHR 0x27] @ ''>'' @ newline
       @ ''  <voice name='' @ [CHR 0x27] @ voice @ [CHR 0x27] @ ''>'' @ newline
       @ ''    <prosody rate='' @ [CHR 0x27] @ ''-10%'' @ [CHR 0x27] @ ''>''
           @ escapeXml text @ ''</prosody>'' @ newline
       @ ''  </voice>'' @ newline
       @ ''</speak>'')"

record tts_item =
  item_code :: string
  item_text :: string

definition voiceMap :: "(string \<times> string) list" where
  "voiceMap =
     [(''en'', ''en-US-JennyNeural''), (''es'', ''es-ES-ElviraNeural''),
      (''fr'', ''fr-FR-DeniseNeural''), (''de'', ''de-DE-KatjaNeural''),
      (''it'', ''it-IT-ElsaNeural''), (''pt'', ''pt-PT-RaquelNeural''),
      (''ru'', ''ru-RU-SvetlanaNeural''), (''zh-Hans'', ''zh-CN-XiaoxiaoNeural''),
      (''ja'', ''ja-JP-NanamiNeural''), (''ko'', ''ko-KR-SunHiNeural''),
      (''ar'', ''ar-SA-ZariyahNeural''), (''tr'', ''tr-TR-EmelNeural''),
      (''nl'', ''nl-NL-ColetteNeural''), (''da'', ''da-DK-ChristelNeural''),
      (''fa'', ''fa-IR-DilaraNeural''), (''lv'', ''lv-LV-EveritaNeural'')]"

text \<open>
  \<^verbatim>\<open>voiceMap\<close> and \<^verbatim>\<open>langMap\<close> are object literals, so a lookup of a key that
  is not their own finds the properties inherited from \<^verbatim>\<open>Object.prototype\<close>: the
  functions named below, and the prototype object itself under \<^verbatim>\<open>__proto__\<close>. All
  of them are truthy.
\<close>

definition object_prototype_functions :: "string list" where
  "object_prototype_functions =
     [''constructor'', ''toString'', ''toLocaleString'', ''valueOf'', ''hasOwnProperty'',
      ''isPrototypeOf'', ''propertyIsEnumerable'', ''__defineGetter__'', ''__defineSetter__'',
      ''__lookupGetter__'', ''__lookupSetter__'']"

text \<open>
  What a template literal makes of an inherited property: the source text of a native
  function (\<^verbatim>\<open>constructor\<close> is the function \<^verbatim>\<open>Object\<close>), and
  \<^verbatim>\<open>[object Object]\<close> for the prototype object.
\<close>

definition inherited_property_text :: "string \<Rightarrow> string option" where
  "inherited_property_text k =
     (if k = ''constructor'' then Some ''function Object() { [native code] }''
      else if k \<in> set object_prototype_functions
        then Some (''function '' @ k @ ''() { [native code] }'')
      else if k = ''__proto__'' then Some ''[object Object]''
      else None)"

text \<open>
  The template of \<^verbatim>\<open>/api/tts\<close>, built for each item of the request:
  \<^verbatim>\<open>voiceMap[item.code] || voiceMap['en']\<close>, then the document with
  \<^verbatim>\<open>${item.text}\<close> placed between the voice tags.
\<close>

definition tts_ssml :: "tts_item \<Rightarrow> string" where
  "tts_ssml item =
     (let voice = (case map_of voiceMap (item_code item) of
                     Some v \<Rightarrow> v
                   | None \<Rightarrow>
                       (case inherited_property_text (item_code item) of
                          Some t \<Rightarrow> t
                        | None \<Rightarrow> ''en-US-JennyNeural''))
      in ''<speak version='' @ [CHR 0x27] @ ''1.0'' @ [CHR 0x27] @ '' xml:lang='' @ [CHR 0x27]
           @ (if item_code item = ''zh-Hans'' then ''zh-CN'' else item_code item)
           @ [CHR 0x27] @ ''>'' @ newline
         @ replicate 14 (CHR '' '') @ ''<voice name='' @ [CHR 0x27] @ voice @ [CHR 0x27] @ ''>''
           @ item_text item @ ''</voice>'' @ newline
         @ replicate 12 (CHR '' '') @ ''</speak>'')"

section \<open>Speech recognition route (server routes, /api/stt)\<close>

text \<open>
  The strings of this route are lists of UTF-16 code units, and \<open>lit\<close> gives the
  code units of a literal. A value that may be \<^verbatim>\<open>undefined\<close> is an option;
  \<^verbatim>\<open>undefined\<close> and the empty string are the falsy ones.
\<close>

type_synonym jstring = "nat list"

definition lit :: "string \<Rightarrow> jstring" where
  "lit s = map of_char s"

definition trim :: "jstring \<Rightarrow> jstring" where
  "trim s = trim_units (\<lambda>c. c) s"

definition truthy :: "jstring option \<Rightarrow> bool" where
  "truthy v \<longleftrightarrow> (case v of None \<Rightarrow> False | Some x \<Rightarrow> x \<noteq> [])"

text \<open>\<^verbatim>\<open>a || b\<close> on such values, with a string as the last resort.\<close>

definition or_else :: "jstring option \<Rightarrow> jstring \<Rightarrow> jstring" where
  "or_else v d = (case v of None \<Rightarrow> d | Some x \<Rightarrow> if x = [] then d else x)"

record stt_env =
  AZURE_SPEECH_KEY :: "jstring option"
  AZURE_SPEECH_REGION :: "jstring option"

record stt_request =
  audioData :: "jstring option"
  language :: "jstring option"

text \<open>
  The fields of the recognizer's JSON that the route reads: \<open>NBestDisplay\<close> and
  \<open>NBestConfidence\<close> are \<^verbatim>\<open>NBest?.[0]?.Display\<close> and \<^verbatim>\<open>NBest?.[0]?.Confidence\<close>.
\<close>

record stt_data =
  RecognitionStatus :: "jstring option"
  DisplayText :: "jstring option"
  NBestDisplay :: "jstring option"
  Confidence :: "rat option"
  NBestConfidence :: "rat option"

text \<open>
  What the recognizer call comes to: \<^verbatim>\<open>fetch\<close> or \<^verbatim>\<open>.json()\<close> throws, the response
  is not ok (status and body text), or the JSON arrives.
\<close>

datatype stt_reply = SttThrows jstring | SttNotOk nat jstring | SttOk stt_data

text \<open>
  What the language-identification call comes to: something inside the inner
  \<^verbatim>\<open>try\<close> throws, the response is not ok, or the JSON arrives with
  \<^verbatim>\<open>translatorData[0]?.language\<close> as given.
\<close>

datatype detect_reply = DetectThrows | DetectNotOk | DetectOk "jstring option"

text \<open>The outbound calls: the recognizer with region, language tag and audio; the detector with the text.\<close>

datatype provider_call = SttCall jstring "jstring option" jstring | DetectCall jstring

text \<open>
  The value of \<^verbatim>\<open>actualDetectedLang\<close>: a string, \<^verbatim>\<open>undefined\<close>, or what a
  lookup in \<^verbatim>\<open>langMap\<close> inherits, a function or the prototype object.
\<close>

datatype js_value = JsUndefined | JsString jstring | JsFunction | JsObject

definition js_of_option :: "jstring option \<Rightarrow> js_value" where
  "js_of_option v = (case v of None \<Rightarrow> JsUndefined | Some x \<Rightarrow> JsString x)"

text \<open>One constructor for each \<^verbatim>\<open>res.json\<close> of the route, with the fields it sends.\<close>

datatype stt_response =
    MissingAudio
  | MockRecognition jstring jstring
  | RecognitionFailed nat jstring
  | Recognized jstring jstring rat js_value
  | NoSpeechDetected jstring
  | SttError jstring

fun str_includes :: "'a list \<Rightarrow> 'a list \<Rightarrow> bool" where
  "str_includes p [] = (p = [])"
| "str_includes p (c # cs) = (take (length p) (c # cs) = p \<or> str_includes p cs)"

text \<open>The second piece of \<^verbatim>\<open>s.split(',')\<close>, \<^verbatim>\<open>undefined\<close> when there is no comma.\<close>

definition after_comma :: "jstring \<Rightarrow> jstring option" where
  "after_comma s =
     (if 44 \<in> set s
      then Some (takeWhile (\<lambda>c. c \<noteq> 44) (tl (dropWhile (\<lambda>c. c \<noteq> 44) s)))
      else None)"

text \<open>
  The audio handed to the recognizer, as the base64 text that \<^verbatim>\<open>Buffer.from\<close>
  decodes; \<^verbatim>\<open>Buffer.from(undefined, 'base64')\<close> throws a TypeError, whose message
  the outer \<^verbatim>\<open>catch\<close> sends.
\<close>

definition audioBuffer_of :: "jstring \<Rightarrow> jstring + jstring" where
  "audioBuffer_of a =
     (if str_includes (lit ''data:audio/'') a
      then (case after_comma a of
              None \<Rightarrow>
                Inl (lit (''The first argument must be of type string or an instance of ''
                          @ ''Buffer, ArrayBuffer, or Array or an Array-like Object. ''
                          @ ''Received undefined''))
            | Some b \<Rightarrow> Inr b)
      else Inr a)"

definition langMap :: "(jstring \<times> jstring) list" where
  "langMap =
     map (\<lambda>(k, v). (lit k, lit v))
       [(''es'', ''es-ES''), (''fr'', ''fr-FR''), (''ar'', ''ar-SA''), (''fa'', ''fa-IR''),
        (''ru'', ''ru-RU''), (''zh'', ''zh-CN''), (''it'', ''it-IT''), (''pt'', ''pt-PT''),
        (''nl'', ''nl-NL''), (''tr'', ''tr-TR''), (''da'', ''da-DK''), (''lv'', ''lv-LV''),
        (''en'', ''en-US'')]"

text \<open>
  \<^verbatim>\<open>langMap[detectedCode] || `${detectedCode}-${detectedCode.toUpperCase()}`\<close>. The
  library function \<^verbatim>\<open>String.prototype.toUpperCase\<close>, with its Unicode case tables,
  is a parameter.
\<close>

definition expand_code :: "(jstring \<Rightarrow> jstring) \<Rightarrow> jstring \<Rightarrow> js_value" where
  "expand_code toUpperCase detectedCode =
     (case map_of langMap detectedCode of
        Some l \<Rightarrow> JsString l
      | None \<Rightarrow>
          if detectedCode \<in> set (map lit object_prototype_functions) then JsFunction
          else if detectedCode = lit ''__proto__'' then JsObject
          else JsString (detectedCode @ lit ''-'' @ toUpperCase detectedCode))"

text \<open>\<^verbatim>\<open>sttData.Confidence || sttData.NBest?.[0]?.Confidence || 1.0\<close>\<close>

definition confidence_of :: "stt_data \<Rightarrow> rat" where
  "confidence_of d =
     (case Confidence d of
        Some c \<Rightarrow> if c \<noteq> 0 then c
                  else (case NBestConfidence d of Some n \<Rightarrow> if n \<noteq> 0 then n else 1 | None \<Rightarrow> 1)
      | None \<Rightarrow> (case NBestConfidence d of Some n \<Rightarrow> if n \<noteq> 0 then n else 1 | None \<Rightarrow> 1))"

text \<open>
  The route handler. It returns the response and the provider calls it made, given
  \<^verbatim>\<open>toUpperCase\<close> and what the two providers answer when called.
\<close>

definition stt :: "(jstring \<Rightarrow> jstring) \<Rightarrow> stt_env \<Rightarrow> stt_request \<Rightarrow> stt_reply
                   \<Rightarrow> detect_reply \<Rightarrow> stt_response \<times> provider_call list" where
  "stt toUpperCase env req sttReply detectReply =
     (if \<not> truthy (audioData req) then (MissingAudio, [])
      else
        let speechKey = AZURE_SPEECH_KEY env;
            speechRegion = or_else (AZURE_SPEECH_REGION env) (lit ''uae-north'')
        in
        if \<not> truthy speechKey \<or> speechRegion = [] then
          (MockRecognition (lit ''[Mock] Recognized speech from audio'')
             (or_else (language req) (lit ''en'')), [])
        else
          (case audioBuffer_of (the (audioData req)) of
             Inl e \<Rightarrow> (SttError e, [])
           | Inr audioBuffer \<Rightarrow>
               let finalLanguage =
                     (if language req = Some (lit ''auto'') then Some (lit ''en-US'')
                      else language req);
                   sttCall = SttCall speechRegion finalLanguage audioBuffer
               in
               (case sttReply of
                  SttThrows e \<Rightarrow> (SttError e, [sttCall])
                | SttNotOk status errorText \<Rightarrow>
                    (RecognitionFailed status (take 100 errorText), [sttCall])
                | SttOk sttData \<Rightarrow>
                    let isSuccess = (RecognitionStatus sttData = Some (lit ''Success'')
                                     \<or> RecognitionStatus sttData = Some (lit ''success''));
                        displayText =
                          or_else (DisplayText sttData) (or_else (NBestDisplay sttData) [])
                    in
                    if isSuccess \<and> displayText \<noteq> [] \<and> trim displayText \<noteq> [] then
                      if language req = Some (lit ''auto'') then
                        let actualDetectedLang =
                              (case detectReply of
                                 DetectOk (Some detectedCode) \<Rightarrow>
                                   if detectedCode \<noteq> []
                                   then expand_code toUpperCase detectedCode
                                   else js_of_option finalLanguage
                               | DetectOk None \<Rightarrow> js_of_option finalLanguage
                               | DetectNotOk \<Rightarrow> js_of_option finalLanguage
                               | DetectThrows \<Rightarrow> js_of_option finalLanguage)
                        in (Recognized displayText (or_else (language req) (lit ''auto''))
                              (confidence_of sttData) actualDetectedLang,
                            [sttCall, DetectCall displayText])
                      else
                        (Recognized displayText (or_else (language req) (lit ''auto''))
                           (confidence_of sttData) (js_of_option finalLanguage),
                         [sttCall])
                    else (NoSpeechDetected (or_else (language req) (lit ''auto'')), [sttCall]))))"

text \<open>
  The value handed to \<^verbatim>\<open>res.json\<close> as \<^verbatim>\<open>detectedLanguage\<close>, where the response
  has that field; \<^verbatim>\<open>JSON.stringify\<close> then leaves out a field that is
  \<^verbatim>\<open>undefined\<close> or a function.
\<close>

fun detectedLanguage :: "stt_response \<Rightarrow> js_value" where
  "detectedLanguage (Recognized _ _ _ d) = d"
| "detectedLanguage _ = JsUndefined"

text \<open>\<^verbatim>\<open>toUpperCase\<close> on strings of ASCII code units, where it maps a to z onto A to Z.\<close>

definition ascii_upper :: "jstring \<Rightarrow> jstring" where
  "ascii_upper s = map (\<lambda>c. if 97 \<le> c \<and> c \<le> 122 then c - 32 else c) s"

text \<open>
  The invariant of the limiter: the counter counts the calls in flight, it stays within
  the limit, and a task waits only while every slot is taken.
\<close>

definition lim_inv :: "int \<Rightarrow> 'a limiter \<Rightarrow> bool" where
  "lim_inv limit s \<longleftrightarrow>
     active s = int (length (inflight s)) \<and> active s \<le> limit \<and> (queue s \<noteq> [] \<longrightarrow> active s = limit)"


section \<open>Properties of the limiter\<close>

lemma lim_inv_new: "0 \<le> limit \<Longrightarrow> lim_inv limit new_limiter"
  by (simp add: lim_inv_def new_limiter_def)

lemma lim_inv_run: "lim_inv limit s \<Longrightarrow> lim_inv limit (run limit t s)"
  by (auto simp: lim_inv_def run_def exec_def)

lemma lim_inv_settle:
  assumes "lim_inv limit s" and "t \<in> set (inflight s)"
  shows "lim_inv limit (settle t s)"
proof -
  from assms(2) have pos: "0 < length (inflight s)"
    by (cases "inflight s") auto
  then have "int (length (inflight s) - 1) = int (length (inflight s)) - 1"
    by linarith
  with assms(2) have len: "int (length (remove1 t (inflight s))) = int (length (inflight s)) - 1"
    by (simp add: length_remove1)
  show ?thesis
  proof (cases "queue s")
    case Nil
    with assms(1) len pos show ?thesis
      by (auto simp: lim_inv_def settle_def Let_def)
  next
    case (Cons e q)
    with assms(1) len pos show ?thesis
      by (auto simp: lim_inv_def settle_def exec_def Let_def)
  qed
qed

lemma lim_inv_step: "lim_inv limit s \<Longrightarrow> lim_inv limit (lim_step limit s e)"
  by (cases e) (simp_all add: lim_inv_run lim_inv_settle)

lemma lim_run_snoc: "lim_run limit (evs @ [e]) = lim_step limit (lim_run limit evs) e"
  by (simp add: lim_run_def)

lemma lim_inv_lim_run: "0 \<le> limit \<Longrightarrow> lim_inv limit (lim_run limit evs)"
proof (induction evs rule: rev_induct)
  case Nil
  then show ?case by (simp add: lim_run_def lim_inv_new)
next
  case (snoc e evs)
  then show ?case by (simp add: lim_run_snoc lim_inv_step)
qed

lemma submitted_snoc:
  "submitted (evs @ [e]) = submitted evs @ (case e of Submit t \<Rightarrow> [t] | Settle t \<Rightarrow> [])"
  by (induction evs rule: submitted.induct) (auto split: lim_event.splits)

lemma fifo_step:
  assumes "lim_inv limit s"
  shows "started (lim_step limit s e) @ queue (lim_step limit s e)
         = started s @ queue s @ (case e of Submit t \<Rightarrow> [t] | Settle t \<Rightarrow> [])"
proof (cases e)
  case (Submit t)
  with assms show ?thesis
    by (auto simp: lim_inv_def run_def exec_def)
next
  case (Settle t)
  then show ?thesis
    by (cases "queue s") (simp_all add: settle_def exec_def Let_def)
qed

lemma fifo_lim_run:
  "0 \<le> limit \<Longrightarrow> started (lim_run limit evs) @ queue (lim_run limit evs) = submitted evs"
proof (induction evs rule: rev_induct)
  case Nil
  then show ?case by (simp add: lim_run_def new_limiter_def)
next
  case (snoc e evs)
  then show ?case
    using fifo_step [OF lim_inv_lim_run [of limit evs], of e]
    by (simp add: lim_run_snoc submitted_snoc)
qed

lemma started_settle: "started (settle t s) @ queue (settle t s) = started s @ queue s"
  by (cases "queue s") (simp_all add: settle_def exec_def Let_def)

lemma drain_done:
  "lim_inv limit s \<Longrightarrow> 0 < limit \<Longrightarrow>
     inflight (drain s) = [] \<and> queue (drain s) = [] \<and> active (drain s) = 0
     \<and> started (drain s) = started s @ queue s"
proof (induction s rule: drain.induct)
  case (1 s)
  show ?case
  proof (cases "inflight s")
    case Nil
    with "1.prems" have "queue s = []" "active s = 0"
      by (auto simp: lim_inv_def)
    with Nil show ?thesis by (simp add: drain.simps [of s])
  next
    case (Cons t ts)
    then have "t \<in> set (inflight s)" by simp
    with "1.prems" have "lim_inv limit (settle t s)"
      by (simp add: lim_inv_settle)
    with "1.IH" [OF Cons] "1.prems"(2) Cons show ?thesis
      using started_settle [of t s] by (simp add: drain.simps [of s])
  qed
qed


section \<open>Properties of synthesis\<close>

lemma runLimited_tts_step:
  assumes "lim_inv 3 (runLimited s)"
  shows "lim_inv 3 (runLimited (tts_step s e))"
proof (cases e)
  case (Call i r)
  with assms show ?thesis
    by (simp add: Let_def lim_inv_run split: option.splits)
next
  case (FetchSettled i fr)
  with assms show ?thesis
    by (simp add: lim_inv_settle split: fetch_result.splits)
next
  case (BodyRead i)
  with assms show ?thesis
    by (simp split: option.splits prod.splits)
next
  case (BodyFailed i e)
  with assms show ?thesis
    by (simp split: option.splits)
qed

lemma tts_run_snoc: "tts_run (evs @ [e]) = tts_step (tts_run evs) e"
  by (simp add: tts_run_def)

lemma lim_inv_tts_run: "lim_inv 3 (runLimited (tts_run evs))"
proof (induction evs rule: rev_induct)
  case Nil
  show ?case by (simp add: tts_run_def tts_init_def lim_inv_new)
next
  case (snoc e evs)
  then show ?case by (simp add: tts_run_snoc runLimited_tts_step)
qed

lemma settle_free_slot:
  assumes "lim_inv 3 l" and "active l < 3" and "i \<notin> set (inflight l)"
  shows "settle i (run 3 i l) = l\<lparr>started := started l @ [i]\<rparr>"
proof -
  from assms have "queue l = []" by (auto simp: lim_inv_def)
  with assms(2,3) show ?thesis
    by (simp add: run_def exec_def settle_def Let_def remove1_append)
qed

text \<open>
  Claim C4. Calling \<^verbatim>\<open>tts\<close> twice in sequence with the same text, voice and locale:
  from any reachable state in which the key is not cached yet and the limiter has a
  free slot, when the provider answers the first call with an ok response, the first
  call is the only provider call made, the second call is served from the cache
  without touching the limiter, and both calls return the same bytes.
\<close>

theorem tts_twice_one_provider_call:
  fixes evs :: "tts_event list" and r :: tts_request and blob :: string and i j :: nat
  defines "s \<equiv> tts_run evs"
  defines "s1 \<equiv> foldl tts_step s [Call i r, FetchSettled i (Response True blob), BodyRead i]"
  defines "s2 \<equiv> tts_step s1 (Call j r)"
  assumes cold: "audioCache s (cache_key (req_text r) (req_voice r) (req_locale r)) = None"
    and slot: "active (runLimited s) < 3"
    and fresh: "i \<notin> set (inflight (runLimited s))"
    and ids: "i \<noteq> j"
  shows "results s2 i = Some (Inr blob) \<and> results s2 j = Some (Inr blob)
         \<and> provider_calls s2 = provider_calls s @ [i]
         \<and> runLimited s2 = runLimited s1"
proof -
  have inv: "lim_inv 3 (runLimited s)"
    unfolding s_def by (rule lim_inv_tts_run)
  have fl: "i \<in> set (inflight (run 3 i (runLimited s)))"
    using slot by (simp add: run_def exec_def)
  have s1: "s1 = s\<lparr>audioCache := (audioCache s)(cache_key (req_text r) (req_voice r) (req_locale r) \<mapsto> blob),
                  runLimited := (runLimited s)\<lparr>started := started (runLimited s) @ [i]\<rparr>,
                  args := (args s)(i \<mapsto> r),
                  reading := ((reading s)(i \<mapsto> (True, blob)))(i := None),
                  results := (results s)(i \<mapsto> Inr blob)\<rparr>"
    unfolding s1_def using cold fl settle_free_slot [OF inv slot fresh]
    by (simp add: Let_def)
  show ?thesis
    unfolding s2_def using ids by (simp add: s1 Let_def provider_calls_def)
qed


lemma args_tts_step:
  assumes "set (inflight (runLimited s)) \<union> set (queue (runLimited s)) \<subseteq> dom (args s)"
  shows "set (inflight (runLimited (tts_step s e))) \<union> set (queue (runLimited (tts_step s e)))
         \<subseteq> dom (args (tts_step s e))"
proof -
  have st: "set (inflight (settle i l)) \<union> set (queue (settle i l)) \<subseteq> set (inflight l) \<union> set (queue l)"
    for i :: nat and l
    by (cases "queue l") (auto simp: settle_def exec_def Let_def dest: set_remove1_subset [THEN subsetD])
  show ?thesis
  proof (cases e)
    case (Call i r)
    with assms show ?thesis
      by (auto simp: Let_def run_def exec_def split: option.splits)
  next
    case (FetchSettled i fr)
    with assms st [of i "runLimited s"] show ?thesis
      by (auto split: fetch_result.splits)
  next
    case (BodyRead i)
    with assms show ?thesis
      by (auto split: option.splits prod.splits)
  next
    case (BodyFailed i e)
    with assms show ?thesis
      by (auto split: option.splits)
  qed
qed

lemma args_tts_run:
  "set (inflight (runLimited (tts_run evs))) \<union> set (queue (runLimited (tts_run evs)))
   \<subseteq> dom (args (tts_run evs))"
proof (induction evs rule: rev_induct)
  case Nil
  show ?case by (simp add: tts_run_def tts_init_def new_limiter_def)
next
  case (snoc e evs)
  then show ?case by (simp only: tts_run_snoc args_tts_step)
qed

lemma settle_head:
  "queue l = q # qs \<Longrightarrow> queue (settle i l) = qs \<and> q \<in> set (inflight (settle i l))"
  by (simp add: settle_def exec_def Let_def)

text \<open>
  Claim C5. When the fetch of invocation \<open>i\<close> rejects, or answers with a response
  that is not ok, the cache is unchanged, the error settles the promise of \<open>i\<close> and
  of no other invocation, and the limiter is in the state a success would have left it
  in: the slot is released, the head of the queue starts, and once the calls in flight
  are answered every waiting request has started.
\<close>

theorem tts_failure_isolated:
  fixes evs :: "tts_event list" and i :: nat and e body :: string
  defines "s \<equiv> tts_run evs"
  defines "rejected \<equiv> tts_step s (FetchSettled i (NetworkError e))"
  defines "not_ok \<equiv> foldl tts_step s [FetchSettled i (Response False body), BodyRead i]"
  defines "l \<equiv> settle i (runLimited s)"
  assumes fl: "i \<in> set (inflight (runLimited s))"
  shows "audioCache rejected = audioCache s \<and> audioCache not_ok = audioCache s
         \<and> results rejected = (results s)(i \<mapsto> Inl e)
         \<and> results not_ok = (results s)(i \<mapsto> Inl body)
         \<and> runLimited rejected = l \<and> runLimited not_ok = l
         \<and> l = runLimited (tts_step s (FetchSettled i (Response True body)))
         \<and> (\<forall>q qs. queue (runLimited s) = q # qs \<longrightarrow>
               queue l = qs \<and> q \<in> set (inflight l) \<and> active l = 3)
         \<and> queue (drain l) = [] \<and> inflight (drain l) = []
         \<and> started (drain l) = started (runLimited s) @ queue (runLimited s)"
proof -
  have inv: "lim_inv 3 (runLimited s)"
    unfolding s_def by (rule lim_inv_tts_run)
  from fl args_tts_run [of evs] obtain r where r: "args s i = Some r"
    unfolding s_def by auto
  have inv': "lim_inv 3 l"
    unfolding l_def using inv fl by (rule lim_inv_settle)
  have rej: "rejected = s\<lparr>runLimited := l, results := (results s)(i \<mapsto> Inl e)\<rparr>"
    unfolding rejected_def l_def using fl by simp
  have nok: "not_ok = s\<lparr>runLimited := l, reading := ((reading s)(i \<mapsto> (False, body)))(i := None),
                         results := (results s)(i \<mapsto> Inl body)\<rparr>"
    unfolding not_ok_def l_def using fl r by simp
  have same: "l = runLimited (tts_step s (FetchSettled i (Response True body)))"
    unfolding l_def using fl by simp
  have head: "\<forall>q qs. queue (runLimited s) = q # qs \<longrightarrow>
                queue l = qs \<and> q \<in> set (inflight l) \<and> active l = 3"
  proof (intro allI impI)
    fix q qs
    assume q: "queue (runLimited s) = q # qs"
    then have "queue l = qs \<and> q \<in> set (inflight l)"
      unfolding l_def by (rule settle_head)
    moreover from q inv have "active l = 3"
      unfolding l_def by (simp add: lim_inv_def settle_def exec_def Let_def)
    ultimately show "queue l = qs \<and> q \<in> set (inflight l) \<and> active l = 3"
      by simp
  qed
  have dr: "queue (drain l) = [] \<and> inflight (drain l) = []
            \<and> started (drain l) = started (runLimited s) @ queue (runLimited s)"
    using drain_done [OF inv'] started_settle [of i "runLimited s"]
    by (simp add: l_def)
  show ?thesis
    using same head dr by (simp add: rej nok)
qed

text \<open>
  Claim C6. For every sequence of submissions and completions at the limiter of limit
  3, the counter of calls in flight stays between 0 and 3 at every point, tasks start
  in the order of their submission (the started tasks followed by the waiting ones are
  the submitted ones), a waiting task always has a call in flight ahead of it, and once
  the calls in flight are answered every submitted task has started. The bound holds
  for the limiter inside \<^verbatim>\<open>tts\<close> as well.
\<close>

theorem limiter_bounded_fifo_complete:
  fixes evs :: "'a lim_event list" and tevs :: "tts_event list"
  defines "l \<equiv> lim_run 3 evs"
  shows "(\<forall>n. 0 \<le> active (lim_run 3 (take n evs)) \<and> active (lim_run 3 (take n evs)) \<le> 3)
         \<and> active l = int (length (inflight l))
         \<and> started l @ queue l = submitted evs
         \<and> (queue l \<noteq> [] \<longrightarrow> inflight l \<noteq> [])
         \<and> queue (drain l) = [] \<and> inflight (drain l) = []
         \<and> started (drain l) = submitted evs
         \<and> active (runLimited (tts_run tevs)) \<le> 3"
proof -
  have inv: "lim_inv 3 (lim_run 3 es)" for es :: "'a lim_event list"
    by (rule lim_inv_lim_run) simp
  have bound: "\<forall>n. 0 \<le> active (lim_run 3 (take n evs)) \<and> active (lim_run 3 (take n evs)) \<le> 3"
  proof
    fix n
    show "0 \<le> active (lim_run 3 (take n evs)) \<and> active (lim_run 3 (take n evs)) \<le> 3"
      using inv [of "take n evs"] by (simp add: lim_inv_def)
  qed
  have fifo: "started l @ queue l = submitted evs"
    unfolding l_def by (rule fifo_lim_run) simp
  have prog: "queue l \<noteq> [] \<longrightarrow> inflight l \<noteq> []"
    using inv [of evs] by (auto simp: lim_inv_def l_def)
  have dr: "queue (drain l) = [] \<and> inflight (drain l) = [] \<and> started (drain l) = submitted evs"
    using drain_done [OF inv [of evs]] fifo by (simp add: l_def)
  have tts: "active (runLimited (tts_run tevs)) \<le> 3"
    using lim_inv_tts_run [of tevs] by (simp add: lim_inv_def)
  show ?thesis
    using bound fifo prog dr tts inv [of evs] by (simp add: lim_inv_def l_def)
qed

text \<open>
  Claim C10. The cache key is not injective: the triples (text \<open>d\<close>, voice \<open>b:c\<close>,
  locale \<open>a\<close>) and (text \<open>c:d\<close>, voice \<open>b\<close>, locale \<open>a\<close>) differ and have the same
  key, and after the first has been synthesized a call for the second returns the
  audio of the first without a provider call.
\<close>

theorem cache_key_collision:
  "cache_key ''d'' ''b:c'' ''a'' = cache_key ''c:d'' ''b'' ''a''
   \<and> (''d'', ''b:c'', ''a'') \<noteq> (''c:d'', ''b'', ''a'')
   \<and> (let s = tts_run [Call 0 \<lparr>req_text = ''d'', req_voice = ''b:c'', req_locale = ''a''\<rparr>,
                        FetchSettled 0 (Response True blob), BodyRead 0,
                        Call 1 \<lparr>req_text = ''c:d'', req_voice = ''b'', req_locale = ''a''\<rparr>]
       in results s 1 = Some (Inr blob) \<and> provider_calls s = [0])"
  by (simp add: tts_run_def tts_init_def cache_key_def new_limiter_def run_def exec_def
      settle_def provider_calls_def)

theorem tts_twice_one_provider_call_witness:
  "audioCache (tts_run []) (cache_key ''Good work!'' ''en-US-JennyNeural'' ''en-US'') = None
   \<and> active (runLimited (tts_run [])) < 3
   \<and> (0::nat) \<notin> set (inflight (runLimited (tts_run [])))
   \<and> (0::nat) \<noteq> 1
   \<and> (let r = \<lparr>req_text = ''Good work!'', req_voice = ''en-US-JennyNeural'', req_locale = ''en-US''\<rparr>;
           s1 = foldl tts_step (tts_run []) [Call 0 r, FetchSettled 0 (Response True ''mp3''), BodyRead 0];
           s2 = tts_step s1 (Call 1 r)
       in results s2 0 = Some (Inr ''mp3'') \<and> results s2 1 = Some (Inr ''mp3'')
          \<and> provider_calls s2 = provider_calls (tts_run []) @ [0]
          \<and> runLimited s2 = runLimited s1)"
  using tts_twice_one_provider_call [where evs = "[]" and i = 0 and j = 1 and blob = "''mp3''"
      and r = "\<lparr>req_text = ''Good work!'', req_voice = ''en-US-JennyNeural'', req_locale = ''en-US''\<rparr>"]
  by (simp add: tts_run_def tts_init_def new_limiter_def Let_def)

theorem tts_failure_isolated_witness:
  "0 \<in> set (inflight (runLimited (tts_run
       [Call 0 \<lparr>req_text = ''a'', req_voice = ''v'', req_locale = ''en-US''\<rparr>,
        Call 2 \<lparr>req_text = ''b'', req_voice = ''v'', req_locale = ''en-US''\<rparr>,
        Call 3 \<lparr>req_text = ''c'', req_voice = ''v'', req_locale = ''en-US''\<rparr>,
        Call 4 \<lparr>req_text = ''d'', req_voice = ''v'', req_locale = ''en-US''\<rparr>])))
   \<and> queue (runLimited (tts_run
       [Call 0 \<lparr>req_text = ''a'', req_voice = ''v'', req_locale = ''en-US''\<rparr>,
        Call 2 \<lparr>req_text = ''b'', req_voice = ''v'', req_locale = ''en-US''\<rparr>,
        Call 3 \<lparr>req_text = ''c'', req_voice = ''v'', req_locale = ''en-US''\<rparr>,
        Call 4 \<lparr>req_text = ''d'', req_voice = ''v'', req_locale = ''en-US''\<rparr>])) = [4]
   \<and> audioCache (tts_step (tts_run
       [Call 0 \<lparr>req_text = ''a'', req_voice = ''v'', req_locale = ''en-US''\<rparr>,
        Call 2 \<lparr>req_text = ''b'', req_voice = ''v'', req_locale = ''en-US''\<rparr>,
        Call 3 \<lparr>req_text = ''c'', req_voice = ''v'', req_locale = ''en-US''\<rparr>,
        Call 4 \<lparr>req_text = ''d'', req_voice = ''v'', req_locale = ''en-US''\<rparr>])
         (FetchSettled 0 (NetworkError ''down''))) = Map.empty
   \<and> started (drain (settle 0 (runLimited (tts_run
       [Call 0 \<lparr>req_text = ''a'', req_voice = ''v'', req_locale = ''en-US''\<rparr>,
        Call 2 \<lparr>req_text = ''b'', req_voice = ''v'', req_locale = ''en-US''\<rparr>,
        Call 3 \<lparr>req_text = ''c'', req_voice = ''v'', req_locale = ''en-US''\<rparr>,
        Call 4 \<lparr>req_text = ''d'', req_voice = ''v'', req_locale = ''en-US''\<rparr>])))) = [0, 2, 3, 4]"
proof -
  let ?s = "tts_run
       [Call 0 \<lparr>req_text = ''a'', req_voice = ''v'', req_locale = ''en-US''\<rparr>,
        Call 2 \<lparr>req_text = ''b'', req_voice = ''v'', req_locale = ''en-US''\<rparr>,
        Call 3 \<lparr>req_text = ''c'', req_voice = ''v'', req_locale = ''en-US''\<rparr>,
        Call 4 \<lparr>req_text = ''d'', req_voice = ''v'', req_locale = ''en-US''\<rparr>]"
  have l: "runLimited ?s = \<lparr>active = 3, queue = [4], inflight = [0, 2, 3], started = [0, 2, 3]\<rparr>"
    by (simp add: tts_run_def tts_init_def new_limiter_def run_def exec_def cache_key_def)
  have c: "audioCache ?s = Map.empty"
    by (simp add: tts_run_def tts_init_def new_limiter_def run_def exec_def cache_key_def)
  have fl: "0 \<in> set (inflight (runLimited ?s))"
    by (simp add: l)
  have q: "queue (runLimited ?s) = [4]"
    by (simp add: l)
  note th = tts_failure_isolated [OF fl, of "''down''" "''bad''"]
  from th have "audioCache (tts_step ?s (FetchSettled 0 (NetworkError ''down''))) = audioCache ?s"
    by (elim conjE)
  then have a: "audioCache (tts_step ?s (FetchSettled 0 (NetworkError ''down''))) = Map.empty"
    by (simp only: c)
  from th have "started (drain (settle 0 (runLimited ?s)))
                = started (runLimited ?s) @ queue (runLimited ?s)"
    by (elim conjE)
  then have d: "started (drain (settle 0 (runLimited ?s))) = [0, 2, 3, 4]"
    by (simp add: l)
  from fl q a d show ?thesis
    by (intro conjI)
qed

theorem limiter_bounded_fifo_complete_witness:
  "(let l = lim_run 3 [Submit 10, Submit 20, Submit 30, Submit 40, Submit (50::nat)]
    in queue l \<noteq> [] \<and> inflight l \<noteq> [] \<and> active l = 3
       \<and> started l @ queue l = [10, 20, 30, 40, 50]
       \<and> started (drain l) = [10, 20, 30, 40, 50])"
proof -
  let ?evs = "[Submit 10, Submit 20, Submit 30, Submit 40, Submit (50::nat)]"
  have l: "lim_run 3 ?evs
           = \<lparr>active = 3, queue = [40, 50], inflight = [10, 20, 30], started = [10, 20, 30]\<rparr>"
    by (simp add: lim_run_def new_limiter_def run_def exec_def)
  have q: "queue (lim_run 3 ?evs) \<noteq> []" "active (lim_run 3 ?evs) = 3"
    by (simp_all add: l)
  from limiter_bounded_fifo_complete [of ?evs "[]"] q show ?thesis
    unfolding Let_def by simp
qed

section \<open>Properties of the signal encoder\<close>

subsection \<open>Rounding to doubles\<close>

lemma floor_rat_numeral_div:
  "\<lfloor>numeral a / numeral b :: rat\<rfloor> = numeral a div numeral b"
proof -
  have "\<lfloor>of_int (numeral a) / of_int (numeral b) :: rat\<rfloor> = numeral a div numeral b"
    by (rule floor_divide_of_int_eq)
  then show ?thesis by simp
qed

lemma exponents_nth: "i < 2046 \<Longrightarrow> exponents ! i = int i - 1022"
  by (simp add: exponents_def)

lemma length_exponents: "length exponents = 2046"
  by (simp add: exponents_def)

lemma pow2_mono: "m \<le> n \<Longrightarrow> (2::rat) powi m \<le> 2 powi n"
proof -
  assume "m \<le> n"
  then have "m = n \<or> m < n" by auto
  then show ?thesis
  proof
    assume "m = n" then show ?thesis by simp
  next
    assume "m < n"
    then have "(2::rat) powi m < 2 powi n"
      by (rule power_int_strict_increasing) simp
    then show ?thesis by simp
  qed
qed

lemma find_exponent:
  fixes x :: rat
  assumes lo: "- 1022 \<le> e" and hi: "e \<le> 1023"
    and above: "x < 2 powi (e + 1)"
    and below: "e = - 1022 \<or> 2 powi e \<le> x"
  shows "find (\<lambda>e. x < 2 powi (e + 1)) exponents = Some e"
proof -
  let ?i = "nat (e + 1022)"
  from lo hi have i: "?i < 2046" by simp
  with lo have nth: "exponents ! ?i = e"
    by (simp add: exponents_nth)
  have before: "\<not> x < 2 powi (exponents ! j + 1)" if "j < ?i" for j
  proof -
    from that i have j: "j < 2046" by simp
    from that lo have lt: "int j - 1022 + 1 \<le> e" by linarith
    from that have "e \<noteq> - 1022" by simp
    with below have "2 powi e \<le> x" by simp
    with pow2_mono [OF lt] have "2 powi (int j - 1022 + 1) \<le> x" by (rule order_trans)
    with j show ?thesis by (simp add: exponents_nth)
  qed
  show ?thesis
    unfolding find_Some_iff
    using i nth above before by (auto simp: length_exponents intro!: exI [of _ ?i])
qed

lemma fl_pos_eq:
  fixes x :: rat
  assumes "- 1022 \<le> e" and "e \<le> 1023"
    and "x < 2 powi (e + 1)"
    and "e = - 1022 \<or> 2 powi e \<le> x"
  shows "fl_pos x = of_int (round_even (x / 2 powi (e - 52))) * 2 powi (e - 52)"
  by (simp add: fl_pos_def find_exponent [OF assms])

lemma fl_1: "fl 1 = 1"
  using fl_pos_eq [of 0 1] by (simp add: fl_def round_even_def)

lemma fl_third: "fl (1 / 3) = 6004799503160661 / 18014398509481984"
  using fl_pos_eq [of "- 2" "1 / 3"]
  by (simp add: fl_def round_even_def floor_rat_numeral_div Let_def)














lemma fl_0: "fl 0 = 0"
  using fl_pos_eq [of "- 1022" 0] by (simp add: fl_def round_even_def)

lemma fl_2: "fl 2 = 2"
  using fl_pos_eq [of 1 2] by (simp add: fl_def round_even_def)

lemma fl_3: "fl 3 = 3"
  using fl_pos_eq [of 1 3] by (simp add: fl_def round_even_def floor_rat_numeral_div)


lemma fl_hundredth: "fl (1 / 100) = 5764607523034235 / 576460752303423488"
  using fl_pos_eq [of "- 7" "1 / 100"]
  by (simp add: fl_def round_even_def floor_rat_numeral_div Let_def)

lemma fl_half_scale: "fl (32767 / 2) = 32767 / 2"
  using fl_pos_eq [of 13 "32767 / 2"]
  by (simp add: fl_def round_even_def floor_rat_numeral_div Let_def)

lemma fl_rate_8960: "fl (14 / 25) = 1261007895663739 / 2251799813685248"
  using fl_pos_eq [of "- 1" "14 / 25"]
  by (simp add: fl_def round_even_def floor_rat_numeral_div Let_def)

lemma fl_len_8960:
  "fl (15762598695796736 / 1261007895663739) = 7036874417766399 / 562949953421312"
  using fl_pos_eq [of 3 "15762598695796736 / 1261007895663739"]
  by (simp add: fl_def round_even_def floor_rat_numeral_div Let_def)

lemma round_8960: "js_round (7036874417766399 / 562949953421312) = 12"
  by (simp add: js_round_def floor_rat_numeral_div)

lemma js_round_numeral_div:
  "js_round (numeral a / numeral b) = (2 * numeral a + numeral b) div (2 * numeral b)"
proof -
  have "(numeral a / numeral b + 1 / 2 :: rat)
        = of_int (2 * numeral a + numeral b) / of_int (2 * numeral b)"
    by (simp add: field_simps)
  then show ?thesis
    unfolding js_round_def by (simp only: floor_divide_of_int_eq)
qed

lemma js_round_int [simp]: "js_round (of_int k) = k"
  by (simp add: js_round_def) linarith

lemma js_round_0 [simp]: "js_round 0 = 0"
  using js_round_int [of 0] by simp

lemma js_round_1 [simp]: "js_round 1 = 1"
  using js_round_int [of 1] by simp

lemma js_round_numeral [simp]: "js_round (numeral k) = numeral k"
  using js_round_int [of "numeral k"] by simp

lemma threshold_eq: "threshold = 5764607523034235 / 576460752303423488"
  by (simp add: threshold_def fl_hundredth)

text \<open>
  Two inputs at which the rounding of doubles decides the result: 7 samples at 8960 Hz
  give 12 output samples (the exact quotient is 12.5), and at 37800 Hz the output
  index 200 reads the input index 472 (the exact product is 472.5).
\<close>

lemma newLength_8960:
  "newLength \<lparr>sampleRate = 8960, channelData = [0, 0, 0, 0, 0, 0, 0]\<rparr> = 12"
  by (simp add: newLength_def ratio_def targetSampleRate_def fl_rate_8960 fl_len_8960 round_8960)

lemma fl_rate_37800: "fl (189 / 80) = 2659938529915699 / 1125899906842624"
  using fl_pos_eq [of 1 "189 / 80"]
  by (simp add: fl_def round_even_def floor_rat_numeral_div Let_def)

lemma fl_index_37800:
  "fl (66498463247892475 / 140737488355328) = 8312307905986559 / 17592186044416"
  using fl_pos_eq [of 8 "66498463247892475 / 140737488355328"]
  by (simp add: fl_def round_even_def floor_rat_numeral_div Let_def)

lemma sourceIndex_37800:
  "js_round (fl (of_nat 200 * ratio \<lparr>sampleRate = 37800, channelData = cd\<rparr>)) = 472"
  by (simp add: ratio_def targetSampleRate_def fl_rate_37800 fl_index_37800 js_round_numeral_div)

subsection \<open>The bytes written\<close>

lemma replicate_44: "replicate 44 (x::byte) = [x,x,x,x,x,x,x,x,x,x,x,x,x,x,x,x,x,x,x,x,x,x,x,x,x,x,x,x,x,x,x,x,x,x,x,x,x,x,x,x,x,x,x,x]"
  by (simp add: numeral_eq_Suc)

lemma header_written:
  "write_all (header_writes n) (replicate (44 + n * 2) 0) = Inr (wav_header n @ replicate (n * 2) 0)"
  by (simp add: replicate_add replicate_44 wav_header_def header_writes_def setBytes_def
      u16_def u32_def str_bytes_def)


lemma length_wav_header: "length (wav_header n) = 44"
  by (simp add: wav_header_def header_writes_def u16_def u32_def str_bytes_def)

lemma length_i16: "length (i16 v) = 2"
  by (simp add: i16_def Let_def)

lemma length_sample_bytes: "length (sample_bytes b i) = 2"
  by (simp add: sample_bytes_def length_i16)

lemma length_concat_sample_bytes: "length (concat (map (sample_bytes b) is)) = 2 * length is"
  by (induction "is") (simp_all add: length_sample_bytes)

lemma write_samples_eq:
  "offset + 2 * length is \<le> length view \<Longrightarrow>
     write_samples b is offset view
       = Inr (take offset view @ concat (map (sample_bytes b) is)
                @ drop (offset + 2 * length is) view,
              offset + 2 * length is)"
proof (induction "is" arbitrary: offset view)
  case Nil
  then show ?case by simp
next
  case (Cons i "is")
  let ?v = "take offset view @ sample_bytes b i @ drop (offset + 2) view"
  from Cons.prems have fit: "offset + 2 \<le> length view" by simp
  then have step: "setBytes offset (i16 (quantize (clip (sample_at b i)))) view = Inr ?v"
    by (simp add: setBytes_def length_i16 sample_bytes_def)
  from fit have len: "length ?v = length view"
    by (simp add: length_sample_bytes)
  from fit have pre: "take (offset + 2) ?v = take offset view @ sample_bytes b i"
    by (simp add: length_sample_bytes)
  from fit have post: "drop (offset + 2 + 2 * length is) ?v
                       = drop (offset + 2 + 2 * length is) view"
    by (simp add: length_sample_bytes add_ac)
  from Cons.prems len have "offset + 2 + 2 * length is \<le> length ?v" by simp
  from Cons.IH [OF this] have
    "write_samples b is (offset + 2) ?v
       = Inr (take (offset + 2) ?v @ concat (map (sample_bytes b) is)
                @ drop (offset + 2 + 2 * length is) ?v,
              offset + 2 + 2 * length is)" .
  with step show ?case
    by (simp only: write_samples.simps sum.case pre post)
       (simp add: add.assoc [symmetric] mult_2 [symmetric])
qed

lemma find_Some_mem: "find P xs = Some x \<Longrightarrow> x \<in> set xs"
  by (induction xs) (auto split: if_splits)

lemma find_rev_upt_less: "find P (rev [0..<n]) = Some i \<Longrightarrow> i < n"
  using find_Some_mem [of P "rev [0..<n]" i] by simp

lemma trimEnd_bound: "nat (trimEnd b + 1) \<le> newLength b"
proof (cases "find (loud b) (rev [0..<newLength b])")
  case None
  then show ?thesis by (simp add: trimEnd_def)
next
  case (Some i)
  with find_rev_upt_less [OF Some] show ?thesis
    by (simp add: trimEnd_def)
qed

text \<open>
  The output for every buffer with a positive sample rate: the header, the bytes of
  the output indices from \<^verbatim>\<open>start\<close> to \<^verbatim>\<open>end\<close>, and zero bytes up to the length
  that was allocated before trimming.
\<close>

lemma encode_eq:
  assumes "0 < sampleRate b"
  shows "encode b
         = Inr (wav_header (newLength b)
                  @ concat (map (sample_bytes b) [trimStart b..<nat (trimEnd b + 1)])
                  @ replicate (2 * (newLength b - retained b)) 0,
                44 + 2 * retained b)"
proof -
  let ?n = "newLength b"
  let ?is = "[trimStart b..<nat (trimEnd b + 1)]"
  let ?v = "wav_header ?n @ replicate (?n * 2) 0"
  have len: "length ?is = retained b"
    by (simp add: retained_def)
  have le: "retained b \<le> ?n"
    using trimEnd_bound [of b] by (simp add: retained_def)
  then have fit: "44 + 2 * length ?is \<le> length ?v"
    by (simp add: length_wav_header retained_def)
  have t: "take 44 ?v = wav_header ?n"
    by (simp add: length_wav_header)
  have d: "drop (44 + 2 * retained b) ?v = replicate (2 * (?n - retained b)) 0"
    using le by (simp add: length_wav_header algebra_simps)
  have "write_samples b ?is 44 ?v
        = Inr (take 44 ?v @ concat (map (sample_bytes b) ?is) @ drop (44 + 2 * length ?is) ?v,
               44 + 2 * length ?is)"
    by (rule write_samples_eq [OF fit])
  then have w: "write_samples b ?is 44 ?v
        = Inr (wav_header ?n @ concat (map (sample_bytes b) ?is)
                 @ replicate (2 * (?n - retained b)) 0,
               44 + 2 * retained b)"
    by (simp only: t d len)
  have "encode b = write_samples b ?is 44 ?v"
    using assms by (simp add: encode_def Let_def header_written)
  with w show ?thesis by simp
qed

lemma getUint32_take:
  "offset + 4 \<le> k \<Longrightarrow> getUint32 offset (take k view) = getUint32 offset view"
  by (simp add: getUint32_def drop_take min_def)


lemma rate_field: "getUint32 24 (wav_header n) = 16000"
  by (simp add: getUint32_def wav_header_def header_writes_def u16_def u32_def str_bytes_def
      targetSampleRate_def)

lemma split4:
  "(v::nat) mod 256 + 256 * (v div 256 mod 256 + 256 * (v div 65536 mod 256 + 256 * (v div 16777216 mod 256)))
   = v mod 4294967296"
proof -
  have a: "v mod (256 * 16777216) = 256 * (v div 256 mod 16777216) + v mod 256"
    by (rule mod_mult2_eq)
  have b: "(v div 256) mod (256 * 65536) = 256 * (v div 256 div 256 mod 65536) + v div 256 mod 256"
    by (rule mod_mult2_eq)
  have c: "(v div 256 div 256) mod (256 * 256) = 256 * (v div 256 div 256 div 256 mod 256) + v div 256 div 256 mod 256"
    by (rule mod_mult2_eq)
  have d1: "v div 256 div 256 = v div 65536"
    by (simp add: div_mult2_eq [symmetric])
  have d2: "v div 256 div 256 div 256 = v div 16777216"
    by (simp add: div_mult2_eq [symmetric])
  have d3: "v div 65536 div 256 = v div 16777216"
    by (simp add: div_mult2_eq [symmetric])
  from a b c show ?thesis
    by (simp add: d1 d2 d3)
qed

lemma le_bytes_value:
  "unat (of_nat v :: byte) + 256 * (unat (of_nat (v div 256) :: byte)
     + 256 * (unat (of_nat (v div 65536) :: byte) + 256 * unat (of_nat (v div 16777216) :: byte)))
   = v mod 4294967296"
  using split4 [of v] by (simp add: unat_of_nat)


lemma data_field: "getUint32 40 (wav_header n) = (n * 2) mod 4294967296"
  using le_bytes_value [of "n * 2"]
  by (simp add: getUint32_def wav_header_def header_writes_def u16_def u32_def str_bytes_def)

lemma getUint32_append:
  "offset + 4 \<le> length xs \<Longrightarrow> getUint32 offset (xs @ ys) = getUint32 offset xs"
  by (simp add: getUint32_def)

lemma encode_fields:
  assumes "0 < sampleRate b"
  shows "\<exists>view. encode b = Inr (view, 44 + 2 * retained b)
              \<and> length view = 44 + 2 * newLength b
              \<and> getUint32 24 view = 16000
              \<and> getUint32 40 view = (newLength b * 2) mod 4294967296"
proof -
  let ?view = "wav_header (newLength b)
                 @ concat (map (sample_bytes b) [trimStart b..<nat (trimEnd b + 1)])
                 @ replicate (2 * (newLength b - retained b)) 0"
  have le: "retained b \<le> newLength b"
    using trimEnd_bound [of b] by (simp add: retained_def)
  have e: "encode b = Inr (?view, 44 + 2 * retained b)"
    by (rule encode_eq [OF assms])
  have l: "length ?view = 44 + 2 * newLength b"
    using le by (simp add: length_wav_header length_concat_sample_bytes retained_def)
  have r: "getUint32 24 ?view = 16000"
    by (simp add: getUint32_append length_wav_header rate_field)
  have d: "getUint32 40 ?view = (newLength b * 2) mod 4294967296"
    by (simp add: getUint32_append length_wav_header data_field)
  from e l r d show ?thesis by blast
qed

lemma find_upt_first:
  assumes "find P [0..<n] = Some i"
  shows "i < n \<and> P i \<and> (\<forall>j<i. \<not> P j)"
proof -
  from assms obtain k where k: "k < n" "P ([0..<n] ! k)" "i = [0..<n] ! k"
    and m: "\<forall>j<k. \<not> P ([0..<n] ! j)"
    by (auto simp: find_Some_iff)
  from k have ik: "i = k" by simp
  have "\<forall>j<i. \<not> P j"
  proof (intro allI impI)
    fix j assume "j < i"
    with ik k(1) m have "\<not> P ([0..<n] ! j)" and "j < n" by auto
    then show "\<not> P j" by simp
  qed
  with k ik show ?thesis by simp
qed

lemma find_Some_P: "find P xs = Some x \<Longrightarrow> P x"
  by (induction xs) (auto split: if_splits)

lemma retained_eq: "int (retained b) = trimEnd b - int (trimStart b) + 1"
proof (cases "find (loud b) [0..<newLength b]")
  case None
  then have "\<forall>x\<in>set [0..<newLength b]. \<not> loud b x"
    by (simp add: find_None_iff)
  then have "find (loud b) (rev [0..<newLength b]) = None"
    by (simp add: find_None_iff)
  with None show ?thesis
    by (simp add: retained_def trimStart_def trimEnd_def)
next
  case (Some i)
  from find_upt_first [OF Some] have i: "i < newLength b" "loud b i" "\<forall>j<i. \<not> loud b j"
    by auto
  from i(1,2) have "find (loud b) (rev [0..<newLength b]) \<noteq> None"
    by (auto simp: find_None_iff)
  then obtain j where j: "find (loud b) (rev [0..<newLength b]) = Some j"
    by blast
  from find_Some_P [OF j] i(3) have "i \<le> j"
    by (meson not_le)
  with Some j show ?thesis
    by (simp add: retained_def trimStart_def trimEnd_def)
qed

text \<open>
  What the encoder writes and what it declares, for every buffer: the sample loop
  writes two bytes for each index from \<^verbatim>\<open>start\<close> to \<^verbatim>\<open>end\<close>, and the data-length
  field holds twice the output length before trimming.
\<close>

lemma encode_written_and_declared:
  assumes "0 < sampleRate b"
  shows "\<exists>view offset. encode b = Inr (view, offset)
           \<and> int offset - 44 = (trimEnd b - int (trimStart b) + 1) * 2
           \<and> getUint32 40 view = (newLength b * 2) mod 4294967296"
proof -
  from encode_fields [OF assms] obtain view where
    e: "encode b = Inr (view, 44 + 2 * retained b)"
    and d: "getUint32 40 view = (newLength b * 2) mod 4294967296"
    by blast
  have "int (44 + 2 * retained b) - 44 = (trimEnd b - int (trimStart b) + 1) * 2"
    using retained_eq [of b] by simp
  with e d show ?thesis by blast
qed

subsection \<open>Silent buffers\<close>

lemma silent_not_loud:
  assumes "\<forall>x\<in>set (channelData b). \<bar>x\<bar> \<le> threshold"
  shows "\<not> loud b i"
proof -
  have "sample_at b i \<in> set (channelData b) \<or> sample_at b i = 0"
    by (auto simp: sample_at_def Let_def)
  moreover have "(0::rat) \<le> threshold"
    by (simp add: threshold_eq)
  ultimately have "\<bar>sample_at b i\<bar> \<le> threshold"
    using assms by auto
  then show ?thesis by (simp add: loud_def)
qed

lemma find_None_all: "(\<And>x. \<not> P x) \<Longrightarrow> find P xs = None"
  by (induction xs) simp_all


lemma newLength_silent_48000_one:
  "newLength \<lparr>sampleRate = 48000, channelData = [0]\<rparr> = 0"
  by (simp add: newLength_def ratio_def targetSampleRate_def fl_3 fl_third js_round_numeral_div)


lemma newLength_48000_six:
  "newLength \<lparr>sampleRate = 48000, channelData = [0, 1 / 100, - 1 / 200, 0, 0, 0]\<rparr> = 2"
  by (simp add: newLength_def ratio_def targetSampleRate_def fl_3 fl_2)

text \<open>
  Claim C3, as stated, fails: one silent sample at 48000 Hz is a non-empty input, and
  the output is the 44 header bytes with no sample after them, since the resampled
  length rounds to 0.
\<close>

theorem silent_buffer_empty_output_counterexample:
  "channelData \<lparr>sampleRate = 48000, channelData = [0]\<rparr> \<noteq> []
   \<and> \<bar>0 :: rat\<bar> \<le> threshold
   \<and> newLength \<lparr>sampleRate = 48000, channelData = [0]\<rparr> = 0
   \<and> trimEnd \<lparr>sampleRate = 48000, channelData = [0]\<rparr> = - 1
   \<and> audioBufferToWav \<lparr>sampleRate = 48000, channelData = [0]\<rparr> = Inr (wav_header 0)
   \<and> length (wav_header 0) = 44"
proof -
  let ?b = "\<lparr>sampleRate = 48000, channelData = [0]\<rparr>"
  have n: "newLength ?b = 0"
    by (rule newLength_silent_48000_one)
  have s: "trimStart ?b = 0"
    by (simp add: trimStart_def n)
  have e: "trimEnd ?b = - 1"
    by (simp add: trimEnd_def n)
  have r: "retained ?b = 0"
    by (simp add: retained_def s e)
  have "encode ?b = Inr (wav_header 0, 44)"
    using encode_eq [of ?b] by (simp add: n s e r)
  then have "audioBufferToWav ?b = Inr (wav_header 0)"
    by (simp add: audioBufferToWav_def)
  with n e show ?thesis
    by (simp add: threshold_eq length_wav_header)
qed

text \<open>
  Claim C3, amended. For every buffer with a positive sample rate in which no sample
  exceeds the silence threshold in absolute value, both scans find nothing:
  \<^verbatim>\<open>start\<close> is 0 and \<^verbatim>\<open>end\<close> is the last output index, no write throws, and the
  encoder returns the 44 header bytes followed by the two bytes of every output
  sample, none trimmed. The output has as many samples as the resampled length, which
  is 0 for an input that rounds to no output sample.
\<close>

theorem silent_buffer_not_trimmed:
  assumes rate: "0 < sampleRate b"
    and silent: "\<forall>x\<in>set (channelData b). \<bar>x\<bar> \<le> threshold"
  shows "trimStart b = 0 \<and> trimEnd b = int (newLength b) - 1
         \<and> encode b = Inr (wav_header (newLength b)
                             @ concat (map (sample_bytes b) [0..<newLength b]),
                           44 + 2 * newLength b)
         \<and> audioBufferToWav b = Inr (wav_header (newLength b)
                                       @ concat (map (sample_bytes b) [0..<newLength b]))"
proof -
  have none: "find (loud b) xs = None" for xs
    using silent_not_loud [OF silent] by (rule find_None_all)
  have s: "trimStart b = 0"
    by (simp add: trimStart_def none)
  have e: "trimEnd b = int (newLength b) - 1"
    by (simp add: trimEnd_def none)
  from s e have r: "retained b = newLength b"
    by (simp add: retained_def)
  have enc: "encode b = Inr (wav_header (newLength b)
                               @ concat (map (sample_bytes b) [0..<newLength b]),
                             44 + 2 * newLength b)"
    using encode_eq [OF rate] by (simp add: s e r)
  then have "audioBufferToWav b = Inr (wav_header (newLength b)
                                        @ concat (map (sample_bytes b) [0..<newLength b]))"
    by (simp add: audioBufferToWav_def)
  with s e enc show ?thesis by simp
qed

theorem silent_buffer_not_trimmed_witness:
  "0 < sampleRate \<lparr>sampleRate = 48000, channelData = [0, 1 / 100, - 1 / 200, 0, 0, 0]\<rparr>
   \<and> \<bar>0 :: rat\<bar> \<le> threshold \<and> \<bar>1 / 100 :: rat\<bar> \<le> threshold \<and> \<bar>- 1 / 200 :: rat\<bar> \<le> threshold
   \<and> newLength \<lparr>sampleRate = 48000, channelData = [0, 1 / 100, - 1 / 200, 0, 0, 0]\<rparr> = 2
   \<and> trimStart \<lparr>sampleRate = 48000, channelData = [0, 1 / 100, - 1 / 200, 0, 0, 0]\<rparr> = 0
   \<and> trimEnd \<lparr>sampleRate = 48000, channelData = [0, 1 / 100, - 1 / 200, 0, 0, 0]\<rparr> = 1
   \<and> encode \<lparr>sampleRate = 48000, channelData = [0, 1 / 100, - 1 / 200, 0, 0, 0]\<rparr>
       = Inr (wav_header 2
                @ concat (map (sample_bytes
                     \<lparr>sampleRate = 48000, channelData = [0, 1 / 100, - 1 / 200, 0, 0, 0]\<rparr>)
                     [0..<2]),
              48)"
proof -
  let ?b = "\<lparr>sampleRate = 48000, channelData = [0, 1 / 100, - 1 / 200, 0, 0, 0]\<rparr>"
  have h1: "0 < sampleRate ?b" by simp
  have h2: "\<forall>x\<in>set (channelData ?b). \<bar>x\<bar> \<le> threshold"
    by (simp add: threshold_eq)
  have n: "newLength ?b = 2"
    by (rule newLength_48000_six)
  from silent_buffer_not_trimmed [OF h1 h2] have
    "trimStart ?b = 0" and "trimEnd ?b = int (newLength ?b) - 1"
    and "encode ?b = Inr (wav_header (newLength ?b)
                            @ concat (map (sample_bytes ?b) [0..<newLength ?b]),
                          44 + 2 * newLength ?b)"
    by blast+
  then have "trimStart ?b = 0 \<and> trimEnd ?b = 1
             \<and> encode ?b = Inr (wav_header 2 @ concat (map (sample_bytes ?b) [0..<2]), 48)"
    by (simp only: n) simp
  with h1 n show ?thesis
    by (simp add: threshold_eq)
qed




text \<open>
  Claim C1. At a three-sample buffer at 16000 Hz whose middle sample alone is above
  the threshold, trimming retains one sample and the loop writes two bytes (the final
  offset is 46), while the header declares a data length of 6 bytes: the length
  before trimming.
\<close>

theorem header_declares_untrimmed_length:
  "(let b = \<lparr>sampleRate = 16000, channelData = [0, 1 / 2, 0]\<rparr>
    in trimStart b = 1 \<and> trimEnd b = 1 \<and> (trimEnd b - int (trimStart b) + 1) * 2 = 2
       \<and> (\<exists>view. encode b = Inr (view, 46) \<and> getUint32 40 view = 6))"
  by (simp add: encode_def trimStart_def trimEnd_def loud_def sample_at_def threshold_eq
      newLength_def ratio_def fl_0 fl_1 fl_2 fl_3 fl_half_scale upt_rec header_writes_def
      setBytes_def u16_def u32_def i16_def str_bytes_def targetSampleRate_def clip_def
      quantize_def js_trunc_def floor_rat_numeral_div getUint32_def)

section \<open>Properties of the session state machine\<close>

text \<open>
  Claim C9, as stated, fails: in the done state \<^verbatim>\<open>startRecording\<close> returns at its
  guard and the state is still done, not listening.
\<close>

theorem startRecording_from_done_counterexample:
  "recordingState (startRecording
      \<lparr>recordingState = Done, currentMessage = None, previousMessage = None,
        englishAudioBlob = None, retryPending = False\<rparr> Granted) \<noteq> Listening"
  by (simp add: startRecording_def)

text \<open>
  Claim C9, amended. Outside the idle state \<^verbatim>\<open>startRecording\<close> changes nothing, so
  from done it leaves the state done; from done a new capture starts after
  \<^verbatim>\<open>resetToIdle\<close> has returned the machine to idle, and then, with the microphone
  granted, the state is listening.
\<close>

theorem startRecording_only_from_idle:
  "(recordingState s \<noteq> Idle \<longrightarrow> startRecording s m = s)
   \<and> (recordingState s = Done \<longrightarrow> recordingState (startRecording s m) = Done)
   \<and> recordingState (startRecording (resetToIdle s) Granted) = Listening"
  by (simp add: startRecording_def resetToIdle_def)

theorem startRecording_only_from_idle_witness:
  "(let s = \<lparr>recordingState = Done, currentMessage = None, previousMessage = None,
             englishAudioBlob = Some ''mp3'', retryPending = False\<rparr>
    in recordingState s \<noteq> Idle \<and> recordingState s = Done \<and> startRecording s Granted = s
       \<and> recordingState (startRecording s Granted) = Done
       \<and> recordingState (startRecording (resetToIdle s) Granted) = Listening)"
  using startRecording_only_from_idle
    [of "\<lparr>recordingState = Done, currentMessage = None, previousMessage = None,
          englishAudioBlob = Some ''mp3'', retryPending = False\<rparr>" Granted]
  by (simp add: Let_def)

section \<open>Properties of the speech markup documents\<close>

lemma replace_char_Nil: "replace_char c r [] = []"
  by (simp add: replace_char_def)

lemma replace_char_Cons:
  "replace_char c r (x # xs) = (if x = c then r else [x]) @ replace_char c r xs"
  by (simp add: replace_char_def)

lemma replace_char_append:
  "replace_char c r (xs @ ys) = replace_char c r xs @ replace_char c r ys"
  by (simp add: replace_char_def)

lemma escapeXml_Cons: "escapeXml (x # xs) = escape_char x @ escapeXml xs"
  by (simp add: escapeXml_def escape_char_def replace_char_Cons replace_char_append replace_char_Nil)

lemma escapeXml_single_pass: "escapeXml s = concat (map escape_char s)"
proof (induction s)
  case Nil
  show ?case by (simp add: escapeXml_def replace_char_Nil)
next
  case (Cons x xs)
  then show ?case by (simp add: escapeXml_Cons)
qed

lemma escapeXml_no_angle: "CHR ''<'' \<notin> set (escapeXml s) \<and> CHR ''>'' \<notin> set (escapeXml s)"
  by (induction s) (auto simp: escapeXml_single_pass escape_char_def)

text \<open>
  Claim C7. At the text \<open>a<b&c\<close> the document that \<^verbatim>\<open>/api/tts\<close> sends embeds the
  text as it is, with its \<open><\<close> and \<open>&\<close>, while \<^verbatim>\<open>/api/tts-single\<close> embeds the
  escaped \<open>a&lt;b&amp;c\<close>.
\<close>

theorem tts_batch_embeds_raw_text:
  "tts_ssml \<lparr>item_code = ''en'', item_text = ''a<b&c''\<rparr>
     = ''<speak version='' @ [CHR 0x27] @ ''1.0'' @ [CHR 0x27] @ '' xml:lang='' @ [CHR 0x27] @ ''en''
       @ [CHR 0x27] @ ''>'' @ newline
       @ replicate 14 (CHR '' '') @ ''<voice name='' @ [CHR 0x27] @ ''en-US-JennyNeural''
       @ [CHR 0x27] @ ''>'' @ ''a<b&c'' @ ''</voice>'' @ newline
       @ replicate 12 (CHR '' '') @ ''</speak>''
   \<and> tts_single_ssml ''a<b&c'' ''en-US-JennyNeural'' ''en-US''
     = ''<speak version='' @ [CHR 0x27] @ ''1.0'' @ [CHR 0x27] @ '' xml:lang='' @ [CHR 0x27] @ ''en-US''
       @ [CHR 0x27] @ ''>'' @ newline
       @ ''  <voice name='' @ [CHR 0x27] @ ''en-US-JennyNeural'' @ [CHR 0x27] @ ''>'' @ newline
       @ ''    <prosody rate='' @ [CHR 0x27] @ ''-10%'' @ [CHR 0x27] @ ''>''
       @ ''a&lt;b&amp;c'' @ ''</prosody>'' @ newline
       @ ''  </voice>'' @ newline
       @ ''</speak>''"
  by (simp add: tts_ssml_def voiceMap_def tts_single_ssml_def escapeXml_def replace_char_def
      trim_chars_def trim_units_def is_space_def newline_def)

section \<open>Properties of the recognition route\<close>

text \<open>
  Two inputs at which the library semantics decides: a transcript of one no-break space
  is blank, so the route reports no speech and calls no detector; and the identified
  code \<open>constructor\<close> finds the inherited function, not a locale.
\<close>

lemma stt_blank_transcript:
  "stt up \<lparr>AZURE_SPEECH_KEY = Some (lit ''k''), AZURE_SPEECH_REGION = None\<rparr>
      \<lparr>audioData = Some (lit ''AAAA''), language = Some (lit ''auto'')\<rparr>
      (SttOk \<lparr>RecognitionStatus = Some (lit ''Success''), DisplayText = Some [160],
              NBestDisplay = None, Confidence = None, NBestConfidence = None\<rparr>)
      detectReply
   = (NoSpeechDetected (lit ''auto''),
      [SttCall (lit ''uae-north'') (Some (lit ''en-US'')) (lit ''AAAA'')])"
  by (simp add: stt_def truthy_def or_else_def audioBuffer_of_def after_comma_def trim_def
      trim_units_def is_space_def lit_def Let_def)

lemma expand_code_constructor: "expand_code up (lit ''constructor'') = JsFunction"
  by (simp add: expand_code_def langMap_def object_prototype_functions_def lit_def)

text \<open>
  Claim C8, as stated, fails: with the tag \<open>auto\<close>, a recognized transcript and a
  language-identification call that answers not ok, the response reports the
  bootstrap tag \<open>en-US\<close> as the detected language.
\<close>

theorem stt_auto_bootstrap_counterexample:
  "detectedLanguage (fst (stt ascii_upper
      \<lparr>AZURE_SPEECH_KEY = Some (lit ''k''), AZURE_SPEECH_REGION = None\<rparr>
      \<lparr>audioData = Some (lit ''AAAA''), language = Some (lit ''auto'')\<rparr>
      (SttOk \<lparr>RecognitionStatus = Some (lit ''Success''), DisplayText = Some (lit ''hola''),
              NBestDisplay = None, Confidence = None, NBestConfidence = None\<rparr>)
      DetectNotOk)) = JsString (lit ''en-US'')"
  by (simp add: stt_def truthy_def or_else_def audioBuffer_of_def after_comma_def trim_def
      trim_units_def is_space_def confidence_of_def js_of_option_def lit_def Let_def)

text \<open>
  Claim C8, amended. With the tag \<open>auto\<close>, credentials configured and audio that
  decodes, the recognizer is called with the bootstrap tag \<open>en-US\<close> whatever it
  answers; when it recognizes a transcript that \<^verbatim>\<open>trim\<close> does not empty, exactly one
  language-identification call follows, on that transcript, and the detected language
  of the response is what the lookup \<^verbatim>\<open>langMap[code] || code-CODE\<close> gives for the
  identified code when that call answers ok with a language, and the bootstrap tag
  \<open>en-US\<close> when it throws, answers not ok or reports no language.
\<close>

theorem stt_auto_detects_or_falls_back:
  fixes env :: stt_env and req :: stt_request and d :: stt_data and detectReply :: detect_reply
    and toUpperCase :: "jstring \<Rightarrow> jstring"
  defines "region \<equiv> or_else (AZURE_SPEECH_REGION env) (lit ''uae-north'')"
  defines "transcript \<equiv> or_else (DisplayText d) (or_else (NBestDisplay d) [])"
  assumes auto: "language req = Some (lit ''auto'')"
    and audio: "truthy (audioData req)" "audioBuffer_of (the (audioData req)) = Inr buf"
    and key: "truthy (AZURE_SPEECH_KEY env)"
    and success: "RecognitionStatus d = Some (lit ''Success'')
                  \<or> RecognitionStatus d = Some (lit ''success'')"
    and speech: "trim transcript \<noteq> []"
  shows "(\<forall>sttReply. \<exists>calls. snd (stt toUpperCase env req sttReply detectReply)
                                  = SttCall region (Some (lit ''en-US'')) buf # calls)
         \<and> snd (stt toUpperCase env req (SttOk d) detectReply)
           = [SttCall region (Some (lit ''en-US'')) buf, DetectCall transcript]
         \<and> detectedLanguage (fst (stt toUpperCase env req (SttOk d) detectReply))
           = (case detectReply of
                DetectOk (Some code) \<Rightarrow>
                  if code \<noteq> [] then expand_code toUpperCase code else JsString (lit ''en-US'')
              | DetectOk None \<Rightarrow> JsString (lit ''en-US'')
              | DetectNotOk \<Rightarrow> JsString (lit ''en-US'')
              | DetectThrows \<Rightarrow> JsString (lit ''en-US''))"
proof -
  have reg: "region \<noteq> []"
    by (auto simp: region_def or_else_def lit_def split: option.splits)
  from speech have ne: "transcript \<noteq> []"
    by (auto simp: trim_def trim_units_def)
  from auto have lang: "or_else (language req) (lit ''auto'') = lit ''auto''"
    by (simp add: or_else_def lit_def)
  have run: "stt toUpperCase env req (SttOk d) detectReply
             = (Recognized transcript (lit ''auto'') (confidence_of d)
                  (case detectReply of
                     DetectOk (Some code) \<Rightarrow>
                       if code \<noteq> [] then expand_code toUpperCase code
                       else JsString (lit ''en-US'')
                   | DetectOk None \<Rightarrow> JsString (lit ''en-US'')
                   | DetectNotOk \<Rightarrow> JsString (lit ''en-US'')
                   | DetectThrows \<Rightarrow> JsString (lit ''en-US'')),
                [SttCall region (Some (lit ''en-US'')) buf, DetectCall transcript])"
    using auto audio key success speech ne reg lang
    unfolding stt_def Let_def region_def transcript_def
    by (simp add: js_of_option_def split: detect_reply.splits option.splits)
  have first: "\<exists>calls. snd (stt toUpperCase env req sttReply detectReply)
                        = SttCall region (Some (lit ''en-US'')) buf # calls" for sttReply
    using auto audio key reg
    unfolding stt_def Let_def region_def
    by (cases sttReply) simp_all
  from first show ?thesis
    by (simp add: run)
qed

theorem stt_auto_detects_or_falls_back_witness:
  "language \<lparr>audioData = Some (lit ''AAAA''), language = Some (lit ''auto'')\<rparr>
     = Some (lit ''auto'')
   \<and> truthy (audioData \<lparr>audioData = Some (lit ''AAAA''), language = Some (lit ''auto'')\<rparr>)
   \<and> audioBuffer_of (lit ''AAAA'') = Inr (lit ''AAAA'')
   \<and> truthy (Some (lit ''k''))
   \<and> trim (lit ''hola'') \<noteq> []
   \<and> stt ascii_upper \<lparr>AZURE_SPEECH_KEY = Some (lit ''k''), AZURE_SPEECH_REGION = None\<rparr>
          \<lparr>audioData = Some (lit ''AAAA''), language = Some (lit ''auto'')\<rparr>
          (SttOk \<lparr>RecognitionStatus = Some (lit ''Success''), DisplayText = Some (lit ''hola''),
                  NBestDisplay = None, Confidence = None, NBestConfidence = None\<rparr>)
          (DetectOk (Some (lit ''es'')))
       = (Recognized (lit ''hola'') (lit ''auto'') 1 (JsString (lit ''es-ES'')),
          [SttCall (lit ''uae-north'') (Some (lit ''en-US'')) (lit ''AAAA''),
           DetectCall (lit ''hola'')])"
proof -
  let ?env = "\<lparr>AZURE_SPEECH_KEY = Some (lit ''k''), AZURE_SPEECH_REGION = None\<rparr>"
  let ?req = "\<lparr>audioData = Some (lit ''AAAA''), language = Some (lit ''auto'')\<rparr>"
  let ?d = "\<lparr>RecognitionStatus = Some (lit ''Success''), DisplayText = Some (lit ''hola''),
             NBestDisplay = None, Confidence = None, NBestConfidence = None\<rparr>"
  have h1: "language ?req = Some (lit ''auto'')" by simp
  have h2: "truthy (audioData ?req)" by (simp add: truthy_def lit_def)
  have h3: "audioBuffer_of (the (audioData ?req)) = Inr (lit ''AAAA'')"
    by (simp add: audioBuffer_of_def lit_def)
  have h4: "truthy (AZURE_SPEECH_KEY ?env)" by (simp add: truthy_def lit_def)
  have h5: "RecognitionStatus ?d = Some (lit ''Success'')
            \<or> RecognitionStatus ?d = Some (lit ''success'')"
    by simp
  have h6: "trim (or_else (DisplayText ?d) (or_else (NBestDisplay ?d) [])) \<noteq> []"
    by (simp add: or_else_def trim_def trim_units_def is_space_def lit_def)
  have r: "stt ascii_upper ?env ?req (SttOk ?d) (DetectOk (Some (lit ''es'')))
       = (Recognized (lit ''hola'') (lit ''auto'') 1 (JsString (lit ''es-ES'')),
          [SttCall (lit ''uae-north'') (Some (lit ''en-US'')) (lit ''AAAA''),
           DetectCall (lit ''hola'')])"
    using stt_auto_detects_or_falls_back [OF h1 h2 h3 h4 h5 h6, of ascii_upper "DetectOk (Some (lit ''es''))"]
    by (cases "stt ascii_upper ?env ?req (SttOk ?d) (DetectOk (Some (lit ''es'')))";
        cases "fst (stt ascii_upper ?env ?req (SttOk ?d) (DetectOk (Some (lit ''es''))))")
       (simp_all add: stt_def truthy_def or_else_def audioBuffer_of_def trim_def trim_units_def
          is_space_def confidence_of_def Let_def expand_code_def langMap_def lit_def)
  have t: "trim (lit ''hola'') \<noteq> []"
    by (simp add: trim_def trim_units_def is_space_def lit_def)
  show ?thesis
    using h1 h2 h3 h4 t r by simp
qed

end
